theory Spec2Isabelle
  imports Main
begin

section \<open>Strings and identifiers\<close>

text \<open>
  JavaScript strings are modelled as \<^typ>\<open>string\<close>. \<open>toLowerCase\<close> folds the ASCII
  capitals; every other character is left as it is.
\<close>

definition toLowerChar :: "char \<Rightarrow> char" where
  "toLowerChar c =
     (case map_of (zip ''ABCDEFGHIJKLMNOPQRSTUVWXYZ'' ''abcdefghijklmnopqrstuvwxyz'') c of
        None \<Rightarrow> c
      | Some l \<Rightarrow> l)"

definition toLowerCase :: "string \<Rightarrow> string" where
  "toLowerCase s = map toLowerChar s"

text \<open>
  \<open>isValidUUID\<close> (syncService.ts, line 13) tests the anchored, case-insensitive pattern
  \<^verbatim>\<open>^[0-9a-f]{8}-[0-9a-f]{4}-[0-9a-f]{4}-[0-9a-f]{4}-[0-9a-f]{12}$\<close>.
  \<open>hexRun n\<close> consumes exactly \<open>n\<close> hexadecimal digits, \<open>dash\<close> one hyphen; each
  returns the rest of the input.
\<close>

definition isHexDigit :: "char \<Rightarrow> bool" where
  "isHexDigit c \<longleftrightarrow> c \<in> set ''0123456789abcdefABCDEF''"

fun hexRun :: "nat \<Rightarrow> string \<Rightarrow> string option" where
  "hexRun 0 s = Some s"
| "hexRun (Suc n) [] = None"
| "hexRun (Suc n) (c # s) = (if isHexDigit c then hexRun n s else None)"

fun dash :: "string \<Rightarrow> string option" where
  "dash [] = None"
| "dash (c # s) = (if c = CHR ''-'' then Some s else None)"

definition isValidUUID :: "string \<Rightarrow> bool" where
  "isValidUUID s \<longleftrightarrow>
     Option.bind (Option.bind (Option.bind (Option.bind (Option.bind (Option.bind (Option.bind
       (Option.bind (hexRun 8 s) dash) (hexRun 4)) dash) (hexRun 4)) dash) (hexRun 4)) dash)
       (hexRun 12) = Some []"

text \<open>JavaScript truthiness of an optional string: \<open>undefined\<close> and \<open>""\<close> are falsy.\<close>

definition truthy :: "string option \<Rightarrow> bool" where
  "truthy x = (case x of None \<Rightarrow> False | Some s \<Rightarrow> s \<noteq> [])"

text \<open>Decimal rendering of a length inside a template string.\<close>

function decimal :: "nat \<Rightarrow> string" where
  "decimal n =
     (if n < 10 then [char_of (48 + n)]
      else decimal (n div 10) @ [char_of (48 + n mod 10)])"
  by pat_completeness auto
termination
  by (relation "measure id") auto

declare decimal.simps [simp del]

section \<open>Data model\<close>

text \<open>
  Modelled from the spec: the local entity types (\<open>../types\<close> is not among the sources).
  The fields are those that syncService.ts reads or writes; numbers are integers and
  instants are natural numbers (a \<open>Date\<close> and its ISO string denote the same instant).
\<close>

record pillar =
  p_id :: string
  p_name :: string
  p_description :: "string option"
  p_weight :: int
  p_progress :: int

record metric =
  m_id :: string
  m_name :: string
  m_unit :: string
  m_type :: string
  m_target :: "int option"
  m_targetDirection :: "string option"
  m_current :: "int option"
  m_history :: "int list"
  m_source :: string
  m_pillarId :: "string option"

record ritual =
  r_id :: string
  r_name :: string
  r_description :: "string option"
  r_frequency :: string
  r_daysOfWeek :: "int list option"
  r_timesPerPeriod :: int
  r_currentStreak :: int
  r_longestStreak :: int
  r_completionsThisPeriod :: int
  r_completionHistory :: "nat list"
  r_pillarId :: "string option"
  r_estimatedMinutes :: "int option"

record objective =
  o_id :: string
  o_name :: string
  o_category :: string
  o_description :: string
  o_targetOutcome :: string
  o_pillars :: "pillar list"
  o_metrics :: "metric list"
  o_rituals :: "ritual list"
  o_startDate :: nat
  o_endDate :: "nat option"
  o_dailyCommitmentMinutes :: int
  o_status :: string
  o_priority :: int
  o_isPaused :: bool
  o_createdAt :: nat
  o_updatedAt :: nat

datatype task_status = Pending | InProgress | Completed | Skipped | Overdue

text \<open>
  A local task and a remote task (interface \<open>Task\<close> of the API client) have the same
  fields; the remote \<open>userId\<close> is never read. Only a local task can be \<open>Overdue\<close>.
\<close>

record task =
  t_id :: string
  t_objectiveId :: string
  t_pillarId :: "string option"
  t_ritualId :: "string option"
  t_title :: string
  t_description :: "string option"
  t_whyItMatters :: "string option"
  t_scheduledAt :: nat
  t_durationMinutes :: int
  t_status :: task_status
  t_completedAt :: "nat option"
  t_skippedReason :: "string option"

text \<open>
  The remote types of the API client. A remote pillar has the fields of \<^typ>\<open>pillar\<close>
  (its \<open>objectiveId\<close> is never read).
\<close>

record api_metric =
  am_id :: string
  am_name :: string
  am_unit :: string
  am_type :: string
  am_target :: "int option"
  am_targetDirection :: "string option"
  am_current :: "int option"
  am_source :: string
  am_pillarId :: "string option"

record api_ritual =
  ar_id :: string
  ar_name :: string
  ar_description :: "string option"
  ar_frequency :: string
  ar_daysOfWeek :: "int list option"
  ar_timesPerPeriod :: int
  ar_estimatedMinutes :: "int option"
  ar_currentStreak :: int
  ar_longestStreak :: int
  ar_pillarId :: "string option"

record api_objective =
  ao_id :: string
  ao_name :: string
  ao_category :: string
  ao_description :: "string option"
  ao_targetOutcome :: "string option"
  ao_startDate :: nat
  ao_endDate :: "nat option"
  ao_dailyCommitmentMinutes :: "int option"
  ao_status :: string
  ao_priority :: "int option"
  ao_isPaused :: "bool option"
  ao_createdAt :: nat
  ao_updatedAt :: nat
  ao_pillars :: "pillar list option"
  ao_metrics :: "api_metric list option"
  ao_rituals :: "api_ritual list option"

text \<open>Request bodies of \<open>createObjective\<close>, \<open>createTask\<close> and \<open>updateTask\<close>.\<close>

record create_ritual =
  cr_id :: string
  cr_name :: string
  cr_description :: "string option"
  cr_frequency :: string
  cr_daysOfWeek :: "int list option"
  cr_timesPerPeriod :: int
  cr_estimatedMinutes :: "int option"
  cr_pillarId :: "string option"

record create_objective =
  co_id :: string
  co_name :: string
  co_category :: string
  co_description :: string
  co_targetOutcome :: string
  co_endDate :: "nat option"
  co_dailyCommitmentMinutes :: int
  co_pillars :: "pillar list"
  co_metrics :: "api_metric list"
  co_rituals :: "create_ritual list"

record create_task =
  ct_id :: string
  ct_objectiveId :: string
  ct_pillarId :: "string option"
  ct_ritualId :: "string option"
  ct_title :: string
  ct_description :: "string option"
  ct_whyItMatters :: "string option"
  ct_scheduledAt :: nat
  ct_durationMinutes :: int

record task_update =
  tu_status :: task_status
  tu_completedAt :: "nat option"
  tu_skippedReason :: "string option"

section \<open>Collaborators\<close>

text \<open>
  Every network call is recorded, in issuance order, with whether it returned (\<open>True\<close>)
  or threw (\<open>False\<close>).
\<close>

datatype call =
    GetObjectives
  | GetObjective string
  | CreateObjective create_objective
  | GetTasks string
  | CreateTask create_task
  | UpdateTask string task_update

type_synonym calls = "(call \<times> bool) list"

text \<open>
  The environment of the service. The remote store answers each request as a function
  of the request and of all earlier calls, so that any deterministic server, stateful or
  not, is an instance; \<open>Inl msg\<close> is the \<open>Error\<close> thrown by the API client with that
  message. \<open>generateId\<close> (\<open>../utils/id\<close>, not among the sources) is a parameter: its
  \<open>n\<close>-th call returns \<open>generateId n\<close>. \<open>today\<close> is the date string computed at the start
  of the task phase and \<open>now\<close> the instant read when a pass completes.
\<close>

record env =
  getObjectives :: "calls \<Rightarrow> string + api_objective list"
  getObjective :: "calls \<Rightarrow> string \<Rightarrow> string + api_objective"
  createObjective :: "calls \<Rightarrow> create_objective \<Rightarrow> string + api_objective option"
  getTasks :: "calls \<Rightarrow> string \<Rightarrow> string + task list"
  createTask :: "calls \<Rightarrow> create_task \<Rightarrow> string + unit"
  updateTask :: "calls \<Rightarrow> string \<Rightarrow> task_update \<Rightarrow> string + unit"
  generateId :: "nat \<Rightarrow> string"
  today :: string
  now :: nat

text \<open>
  The mutable data the reconcilers work on: the module-level \<open>idMapping\<close>, the two local
  stores, the calls issued so far and the number of identifiers generated so far.
\<close>

record store =
  idMapping :: "string \<rightharpoonup> string"
  objectives :: "objective list"
  tasks :: "task list"
  calls :: calls
  idCount :: nat

definition logCall :: "call \<Rightarrow> bool \<Rightarrow> store \<Rightarrow> store" where
  "logCall c ok w = w\<lparr>calls := calls w @ [(c, ok)]\<rparr>"

text \<open>
  Modelled from the spec: \<open>addObjective\<close> and \<open>addTasks\<close> of the local stores
  (\<open>../store\<close> is not among the sources) append the downloaded entities.
\<close>

definition addObjective :: "objective \<Rightarrow> store \<Rightarrow> store" where
  "addObjective ob w = w\<lparr>objectives := objectives w @ [ob]\<rparr>"

definition addTasks :: "task list \<Rightarrow> store \<Rightarrow> store" where
  "addTasks ts w = w\<lparr>tasks := tasks w @ ts\<rparr>"

section \<open>The objective phase\<close>

text \<open>
  \<open>new Map(xs.map(x => [key(x), x]))\<close> inserts the entries in list order with \<open>set\<close>:
  an entry replaces an earlier one that has the same key.
\<close>

definition remoteByName :: "api_objective list \<Rightarrow> string \<rightharpoonup> api_objective" where
  "remoteByName remoteObjectives =
     fold (\<lambda>ob m. m(toLowerCase (ao_name ob) \<mapsto> ob)) remoteObjectives Map.empty"

definition remoteMap :: "api_objective list \<Rightarrow> string \<rightharpoonup> api_objective" where
  "remoteMap remoteObjectives = fold (\<lambda>ob m. m(ao_id ob \<mapsto> ob)) remoteObjectives Map.empty"

definition localMap :: "objective list \<Rightarrow> string \<rightharpoonup> objective" where
  "localMap localObjectives = fold (\<lambda>ob m. m(o_id ob \<mapsto> ob)) localObjectives Map.empty"

text \<open>
  \<open>remote.pillars?.find(rp => rp.name.toLowerCase() === localPillar.name.toLowerCase())\<close>
  and its two siblings: the first child of that name, nothing when the collection is absent.
\<close>

definition findByName :: "('a \<Rightarrow> string) \<Rightarrow> string \<Rightarrow> 'a list option \<Rightarrow> 'a option" where
  "findByName nm n xs =
     (case xs of
        None \<Rightarrow> None
      | Some ys \<Rightarrow> find (\<lambda>y. toLowerCase (nm y) = toLowerCase n) ys)"

definition mapPillarsAndRituals ::
  "objective \<Rightarrow> api_objective \<Rightarrow> (string \<rightharpoonup> string) \<Rightarrow> (string \<rightharpoonup> string)" where
  "mapPillarsAndRituals local remote m0 =
     (let m1 = fold (\<lambda>localPillar m.
                  case findByName p_name (p_name localPillar) (ao_pillars remote) of
                    None \<Rightarrow> m
                  | Some remotePillar \<Rightarrow> m(p_id localPillar \<mapsto> p_id remotePillar))
                (o_pillars local) m0;
          m2 = fold (\<lambda>localMetric m.
                  case findByName am_name (m_name localMetric) (ao_metrics remote) of
                    None \<Rightarrow> m
                  | Some remoteMetric \<Rightarrow> m(m_id localMetric \<mapsto> am_id remoteMetric))
                (o_metrics local) m1
      in fold (\<lambda>localRitual m.
                  case findByName ar_name (r_name localRitual) (ao_rituals remote) of
                    None \<Rightarrow> m
                  | Some remoteRitual \<Rightarrow> m(r_id localRitual \<mapsto> ar_id remoteRitual))
                (o_rituals local) m2)"

text \<open>\<open>isValidUUID(id) ? id : generateId()\<close>, threading the number of generated identifiers.\<close>

definition mintId :: "env \<Rightarrow> string \<Rightarrow> nat \<Rightarrow> string \<times> nat" where
  "mintId e i n = (if isValidUUID i then (i, n) else (generateId e n, Suc n))"

text \<open>The \<open>{localId, serverId}\<close> pairs of \<open>pillarMappings\<close>, \<open>metricMappings\<close>, \<open>ritualMappings\<close>.\<close>

fun mintIds :: "env \<Rightarrow> string list \<Rightarrow> nat \<Rightarrow> (string \<times> string) list \<times> nat" where
  "mintIds e [] n = ([], n)"
| "mintIds e (i # ids) n =
     (let (s, n1) = mintId e i n;
          (rest, n2) = mintIds e ids n1
      in ((i, s) # rest, n2))"

text \<open>
  \<open>x.pillarId ? pillarMappings.find(pm => pm.localId === x.pillarId)?.serverId : undefined\<close>
\<close>

definition owningPillar :: "(string \<times> string) list \<Rightarrow> string option \<Rightarrow> string option" where
  "owningPillar pillarMappings ref =
     (case ref of
        None \<Rightarrow> None
      | Some pid \<Rightarrow>
          if pid = [] then None
          else map_option snd (find (\<lambda>pm. fst pm = pid) pillarMappings))"

text \<open>
  The identifiers pre-generated for one local-only objective (lines 189 to 203): for the
  objective itself, then for its pillars, its metrics and its rituals, in this order.
\<close>

record minted =
  objectiveId :: string
  pillarMappings :: "(string \<times> string) list"
  metricMappings :: "(string \<times> string) list"
  ritualMappings :: "(string \<times> string) list"

definition mintAll :: "env \<Rightarrow> objective \<Rightarrow> nat \<Rightarrow> minted \<times> nat" where
  "mintAll e local n =
     (let (oi, n1) = mintId e (o_id local) n;
          (pms, n2) = mintIds e (map p_id (o_pillars local)) n1;
          (mms, n3) = mintIds e (map m_id (o_metrics local)) n2;
          (rms, n4) = mintIds e (map r_id (o_rituals local)) n3
      in (\<lparr> objectiveId = oi, pillarMappings = pms, metricMappings = mms,
             ritualMappings = rms \<rparr>, n4))"

definition createPayload :: "objective \<Rightarrow> minted \<Rightarrow> create_objective" where
  "createPayload local mn =
     \<lparr> co_id = objectiveId mn,
       co_name = o_name local,
       co_category = o_category local,
       co_description = o_description local,
       co_targetOutcome = o_targetOutcome local,
       co_endDate = o_endDate local,
       co_dailyCommitmentMinutes = o_dailyCommitmentMinutes local,
       co_pillars = map (\<lambda>(p, pm).
           \<lparr> p_id = snd pm, p_name = p_name p, p_description = p_description p,
             p_weight = p_weight p, p_progress = p_progress p \<rparr>)
         (zip (o_pillars local) (pillarMappings mn)),
       co_metrics = map (\<lambda>(m, mm).
           \<lparr> am_id = snd mm, am_name = m_name m, am_unit = m_unit m, am_type = m_type m,
             am_target = m_target m, am_targetDirection = m_targetDirection m,
             am_current = m_current m, am_source = m_source m,
             am_pillarId = owningPillar (pillarMappings mn) (m_pillarId m) \<rparr>)
         (zip (o_metrics local) (metricMappings mn)),
       co_rituals = map (\<lambda>(r, rm).
           \<lparr> cr_id = snd rm, cr_name = r_name r, cr_description = r_description r,
             cr_frequency = r_frequency r, cr_daysOfWeek = r_daysOfWeek r,
             cr_timesPerPeriod = r_timesPerPeriod r,
             cr_estimatedMinutes = r_estimatedMinutes r,
             cr_pillarId = owningPillar (pillarMappings mn) (r_pillarId r) \<rparr>)
         (zip (o_rituals local) (ritualMappings mn)) \<rparr>"

text \<open>\<open>idMapping.set\<close> over a list of pairs, in list order.\<close>

definition register :: "(string \<times> string) list \<Rightarrow> (string \<rightharpoonup> string) \<Rightarrow> (string \<rightharpoonup> string)" where
  "register pairs m = fold (\<lambda>pm m'. m'(fst pm \<mapsto> snd pm)) pairs m"

text \<open>The registrations after a successful creation (lines 247 to 250).\<close>

definition registerAll :: "objective \<Rightarrow> minted \<Rightarrow> (string \<rightharpoonup> string) \<Rightarrow> (string \<rightharpoonup> string)" where
  "registerAll local mn m =
     register (pillarMappings mn @ metricMappings mn @ ritualMappings mn)
       (m(o_id local \<mapsto> objectiveId mn))"

definition uploadFailed :: "string \<Rightarrow> string \<Rightarrow> string" where
  "uploadFailed kind name = ''Failed to upload '' @ kind @ '' '' @ [CHR 0x22] @ name @ [CHR 0x22]"

text \<open>
  One iteration of the upload loop of \<open>syncObjectives\<close> (lines 168 to 258), on the
  errors collected so far and the store. A call that returns without an \<open>objective\<close>
  field (\<open>Inr None\<close>) registers nothing and records no error.
\<close>

definition uploadStep ::
  "env \<Rightarrow> api_objective list \<Rightarrow> objective \<Rightarrow> string list \<times> store \<Rightarrow> string list \<times> store" where
  "uploadStep e remoteObjectives local acc =
     (let errors = fst acc; w = snd acc in
      case remoteMap remoteObjectives (o_id local) of
        Some remote \<Rightarrow>
          (errors, w\<lparr>idMapping :=
             mapPillarsAndRituals local remote ((idMapping w)(o_id local \<mapsto> o_id local))\<rparr>)
      | None \<Rightarrow>
         (case remoteByName remoteObjectives (toLowerCase (o_name local)) of
            Some existingByName \<Rightarrow>
              (errors, w\<lparr>idMapping :=
                 mapPillarsAndRituals local existingByName
                   ((idMapping w)(o_id local \<mapsto> ao_id existingByName))\<rparr>)
          | None \<Rightarrow>
             (let mn = mintAll e local (idCount w);
                  payload = createPayload local (fst mn);
                  result = createObjective e (calls w) payload;
                  w1 = logCall (CreateObjective payload) (\<not> isl result) (w\<lparr>idCount := snd mn\<rparr>)
              in case result of
                   Inl err \<Rightarrow> (errors @ [uploadFailed ''objective'' (o_name local)], w1)
                 | Inr None \<Rightarrow> (errors, w1)
                 | Inr (Some created) \<Rightarrow>
                     (errors, w1\<lparr>idMapping := registerAll local (fst mn) (idMapping w1)\<rparr>))))"

text \<open>The local objective built from a fetched detail (lines 268 to 317).\<close>

definition materialize :: "api_objective \<Rightarrow> objective" where
  "materialize fullObjective =
     \<lparr> o_id = ao_id fullObjective,
       o_name = ao_name fullObjective,
       o_category = ao_category fullObjective,
       o_description = (case ao_description fullObjective of None \<Rightarrow> [] | Some d \<Rightarrow> d),
       o_targetOutcome = (case ao_targetOutcome fullObjective of None \<Rightarrow> [] | Some d \<Rightarrow> d),
       o_pillars = map (\<lambda>p.
           \<lparr> p_id = p_id p, p_name = p_name p, p_description = p_description p,
             p_weight = p_weight p, p_progress = p_progress p \<rparr>)
         (case ao_pillars fullObjective of None \<Rightarrow> [] | Some ps \<Rightarrow> ps),
       o_metrics = map (\<lambda>m.
           \<lparr> m_id = am_id m, m_name = am_name m, m_unit = am_unit m, m_type = am_type m,
             m_target = am_target m, m_targetDirection = am_targetDirection m,
             m_current = am_current m, m_history = [], m_source = am_source m,
             m_pillarId = am_pillarId m \<rparr>)
         (case ao_metrics fullObjective of None \<Rightarrow> [] | Some ms \<Rightarrow> ms),
       o_rituals = map (\<lambda>r.
           \<lparr> r_id = ar_id r, r_name = ar_name r, r_description = ar_description r,
             r_frequency = ar_frequency r, r_daysOfWeek = ar_daysOfWeek r,
             r_timesPerPeriod = ar_timesPerPeriod r, r_currentStreak = ar_currentStreak r,
             r_longestStreak = ar_longestStreak r, r_completionsThisPeriod = 0,
             r_completionHistory = [], r_pillarId = ar_pillarId r,
             r_estimatedMinutes = ar_estimatedMinutes r \<rparr>)
         (case ao_rituals fullObjective of None \<Rightarrow> [] | Some rs \<Rightarrow> rs),
       o_startDate = ao_startDate fullObjective,
       o_endDate = ao_endDate fullObjective,
       o_dailyCommitmentMinutes =
         (case ao_dailyCommitmentMinutes fullObjective of
            None \<Rightarrow> 60
          | Some n \<Rightarrow> if n = 0 then 60 else n),
       o_status = ao_status fullObjective,
       o_priority =
         (case ao_priority fullObjective of None \<Rightarrow> 1 | Some n \<Rightarrow> if n = 0 then 1 else n),
       o_isPaused = (case ao_isPaused fullObjective of None \<Rightarrow> False | Some b \<Rightarrow> b),
       o_createdAt = ao_createdAt fullObjective,
       o_updatedAt = ao_updatedAt fullObjective \<rparr>"

text \<open>
  The download loop (lines 261 to 323). The call to \<open>getObjective\<close> is outside any
  \<open>try\<close>: when it throws, the loop and \<open>syncObjectives\<close> end with that exception
  (\<open>Inl\<close>), and the store keeps what was written before.
\<close>

fun downloadLoop ::
  "env \<Rightarrow> (string \<rightharpoonup> objective) \<Rightarrow> api_objective list \<Rightarrow> store \<Rightarrow> (string + unit) \<times> store" where
  "downloadLoop e lm [] w = (Inr (), w)"
| "downloadLoop e lm (remote # rest) w =
     (if lm (ao_id remote) \<noteq> None then downloadLoop e lm rest w
      else
        (let result = getObjective e (calls w) (ao_id remote);
             w1 = logCall (GetObjective (ao_id remote)) (\<not> isl result) w
         in case result of
              Inl err \<Rightarrow> (Inl err, w1)
            | Inr fullObjective \<Rightarrow>
                (let localObjective = materialize fullObjective;
                     w2 = addObjective localObjective w1
                 in downloadLoop e lm rest
                      (w2\<lparr>idMapping :=
                         (idMapping w2)(o_id localObjective \<mapsto> o_id localObjective)\<rparr>))))"

text \<open>
  \<open>syncObjectives\<close> returns its error list (\<open>Inr\<close>) or the message of the exception it
  ends with (\<open>Inl\<close>), and the store in both cases.
\<close>

definition syncObjectives :: "env \<Rightarrow> store \<Rightarrow> (string + string list) \<times> store" where
  "syncObjectives e w =
     (let localObjectives = objectives w;
          fetched = getObjectives e (calls w);
          w0 = logCall GetObjectives (\<not> isl fetched) w
      in case fetched of
           Inl err \<Rightarrow> (Inl err, w0)
         | Inr remoteObjectives \<Rightarrow>
             (let up = fold (uploadStep e remoteObjectives) localObjectives ([], w0)
              in case downloadLoop e (localMap localObjectives) remoteObjectives (snd up) of
                   (Inl err, w2) \<Rightarrow> (Inl err, w2)
                 | (Inr u, w2) \<Rightarrow> (Inr (fst up), w2)))"

section \<open>The task phase\<close>

definition taskMap :: "task list \<Rightarrow> string \<rightharpoonup> task" where
  "taskMap ts = fold (\<lambda>t m. m(t_id t \<mapsto> t)) ts Map.empty"

text \<open>
  \<open>idMapping.get(ref) || (isValidUUID(ref) ? ref : undefined)\<close>, under \<open>if (ref)\<close>.
\<close>

definition resolveRef :: "(string \<rightharpoonup> string) \<Rightarrow> string option \<Rightarrow> string option" where
  "resolveRef m ref =
     (case ref of
        None \<Rightarrow> None
      | Some i \<Rightarrow>
          if i = [] then None
          else if truthy (m i) then m i
          else if isValidUUID i then Some i
          else None)"

text \<open>One iteration of the upload loop of \<open>syncTasks\<close> (lines 345 to 389).\<close>

definition taskUploadStep ::
  "env \<Rightarrow> (string \<rightharpoonup> task) \<Rightarrow> task \<Rightarrow> string list \<times> store \<Rightarrow> string list \<times> store" where
  "taskUploadStep e rm local acc =
     (let errors = fst acc; w = snd acc in
      if rm (t_id local) \<noteq> None then (errors, w)
      else
        (case idMapping w (t_objectiveId local) of
           None \<Rightarrow> (errors, w)
         | Some serverObjectiveId \<Rightarrow>
             if serverObjectiveId = [] then (errors, w)
             else
               (let (taskId, n1) = mintId e (t_id local) (idCount w);
                    pillarId = resolveRef (idMapping w) (t_pillarId local);
                    ritualId = resolveRef (idMapping w) (t_ritualId local);
                    payload =
                      \<lparr> ct_id = taskId, ct_objectiveId = serverObjectiveId,
                        ct_pillarId = pillarId, ct_ritualId = ritualId,
                        ct_title = t_title local, ct_description = t_description local,
                        ct_whyItMatters = t_whyItMatters local,
                        ct_scheduledAt = t_scheduledAt local,
                        ct_durationMinutes = t_durationMinutes local \<rparr>;
                    result = createTask e (calls w) payload;
                    w1 = logCall (CreateTask payload) (\<not> isl result) (w\<lparr>idCount := n1\<rparr>)
                in case result of
                     Inl err \<Rightarrow> (errors @ [uploadFailed ''task'' (t_title local)], w1)
                   | Inr u \<Rightarrow> (errors, w1))))"

definition apiStatus :: "task \<Rightarrow> task_status" where
  "apiStatus local = (if t_status local = Overdue then Pending else t_status local)"

definition statusUpdate :: "task \<Rightarrow> task_update" where
  "statusUpdate local =
     \<lparr> tu_status = apiStatus local, tu_completedAt = t_completedAt local,
       tu_skippedReason = t_skippedReason local \<rparr>"

text \<open>
  One iteration of the status loop (lines 392 to 411): a failing \<open>updateTask\<close> is caught
  and only logged to the console.
\<close>

definition statusStep :: "env \<Rightarrow> (string \<rightharpoonup> task) \<Rightarrow> task \<Rightarrow> store \<Rightarrow> store" where
  "statusStep e rm local w =
     (case rm (t_id local) of
        None \<Rightarrow> w
      | Some remote \<Rightarrow>
          if apiStatus local \<noteq> t_status remote then
            (let result = updateTask e (calls w) (t_id local) (statusUpdate local)
             in logCall (UpdateTask (t_id local) (statusUpdate local)) (\<not> isl result) w)
          else w)"

text \<open>One iteration of the download loop (lines 414 to 435).\<close>

definition taskDownloadStep :: "(string \<rightharpoonup> task) \<Rightarrow> task \<Rightarrow> store \<Rightarrow> store" where
  "taskDownloadStep lm remote w =
     (if lm (t_id remote) = None then
        addTasks
          [\<lparr> t_id = t_id remote, t_objectiveId = t_objectiveId remote,
             t_pillarId = t_pillarId remote, t_ritualId = t_ritualId remote,
             t_title = t_title remote, t_description = t_description remote,
             t_whyItMatters = t_whyItMatters remote, t_scheduledAt = t_scheduledAt remote,
             t_durationMinutes = t_durationMinutes remote, t_status = t_status remote,
             t_completedAt = t_completedAt remote,
             t_skippedReason = t_skippedReason remote \<rparr>] w
      else w)"

definition syncTasks :: "env \<Rightarrow> store \<Rightarrow> (string + string list) \<times> store" where
  "syncTasks e w =
     (let localTasks = tasks w;
          fetched = getTasks e (calls w) (today e);
          w0 = logCall (GetTasks (today e)) (\<not> isl fetched) w
      in case fetched of
           Inl err \<Rightarrow> (Inl err, w0)
         | Inr remoteTasks \<Rightarrow>
             (let rm = taskMap remoteTasks;
                  lm = taskMap localTasks;
                  up = fold (taskUploadStep e rm) localTasks ([], w0);
                  w2 = fold (statusStep e rm) localTasks (snd up);
                  w3 = fold (taskDownloadStep lm) remoteTasks w2
              in (Inr (fst up), w3)))"

section \<open>The orchestrator\<close>

datatype sync_status = Idle | Syncing | Success | Error

record sync_state =
  status :: sync_status
  lastSyncAt :: "nat option"
  error :: "string option"

record sync_result =
  success :: bool
  result_error :: "string option"

text \<open>
  The service: the published \<open>syncState\<close>, the snapshots handed to the listeners so far
  (each listener receives every one of them), the authentication flag and the store.
\<close>

record service =
  syncState :: sync_state
  notified :: "sync_state list"
  isAuthenticated :: bool
  data :: store

definition notifyListeners :: "service \<Rightarrow> service" where
  "notifyListeners s = s\<lparr>notified := notified s @ [syncState s]\<rparr>"

text \<open>The \<open>catch\<close> block of \<open>syncAll\<close> (lines 136 to 147).\<close>

definition syncFailed :: "string \<Rightarrow> store \<Rightarrow> service \<Rightarrow> sync_result \<times> service" where
  "syncFailed message w s =
     (\<lparr> success = False, result_error = Some message \<rparr>,
      notifyListeners
        (s\<lparr>syncState := (syncState s)\<lparr>status := Error, error := Some message\<rparr>, data := w\<rparr>))"

definition syncAll :: "env \<Rightarrow> service \<Rightarrow> sync_result \<times> service" where
  "syncAll e s =
     (if \<not> isAuthenticated s then
        (\<lparr> success = False, result_error = Some ''Not authenticated'' \<rparr>, s)
      else
        (let s1 = notifyListeners
                    (s\<lparr>syncState := (syncState s)\<lparr>status := Syncing, error := None\<rparr>\<rparr>)
         in case syncObjectives e (data s1) of
              (Inl message, w1) \<Rightarrow> syncFailed message w1 s1
            | (Inr objErrors, w1) \<Rightarrow>
               (case syncTasks e w1 of
                  (Inl message, w2) \<Rightarrow> syncFailed message w2 s1
                | (Inr taskErrors, w2) \<Rightarrow>
                   (let errors = objErrors @ taskErrors;
                        s2 = notifyListeners
                          (s1\<lparr>syncState :=
                              \<lparr> status = (if length errors > 0 then Error else Success),
                                lastSyncAt = Some (now e),
                                error = (if length errors > 0
                                         then Some (decimal (length errors)
                                                    @ '' item(s) failed to sync'')
                                         else None) \<rparr>,
                             data := w2\<rparr>)
                    in if length errors > 0 then
                         (\<lparr> success = False,
                            result_error = Some (decimal (length errors)
                              @ '' item(s) failed to sync. Check console for details.'') \<rparr>, s2)
                       else (\<lparr> success = True, result_error = None \<rparr>, s2)))))"

section \<open>Notions used in the statements\<close>

text \<open>The calls issued between two stores, the later one extending the earlier.\<close>

definition newCalls :: "store \<Rightarrow> store \<Rightarrow> calls" where
  "newCalls w w' = drop (length (calls w)) (calls w')"

fun isFetch :: "call \<Rightarrow> bool" where
  "isFetch GetObjectives = True"
| "isFetch (GetObjective i) = True"
| "isFetch (GetTasks d) = True"
| "isFetch c = False"

fun isCreate :: "call \<Rightarrow> bool" where
  "isCreate (CreateObjective p) = True"
| "isCreate (CreateTask p) = True"
| "isCreate c = False"

fun isUpdate :: "call \<Rightarrow> bool" where
  "isUpdate (UpdateTask i u) = True"
| "isUpdate c = False"

text \<open>The local identifiers of the pillars, metrics and rituals of an objective.\<close>

definition childIds :: "objective \<Rightarrow> string list" where
  "childIds local =
     map p_id (o_pillars local) @ map m_id (o_metrics local) @ map r_id (o_rituals local)"

text \<open>
  The registrations that \<open>mapPillarsAndRituals\<close> performs, as the list of its
  \<open>(local, remote)\<close> pairs in the order of the calls to \<open>idMapping.set\<close>.
\<close>

definition childPairs :: "objective \<Rightarrow> api_objective \<Rightarrow> (string \<times> string) list" where
  "childPairs local remote =
     List.map_filter (\<lambda>lp. map_option (\<lambda>rp. (p_id lp, p_id rp))
        (findByName p_name (p_name lp) (ao_pillars remote))) (o_pillars local)
     @ List.map_filter (\<lambda>lm. map_option (\<lambda>rm. (m_id lm, am_id rm))
        (findByName am_name (m_name lm) (ao_metrics remote))) (o_metrics local)
     @ List.map_filter (\<lambda>lr. map_option (\<lambda>rr. (r_id lr, ar_id rr))
        (findByName ar_name (r_name lr) (ao_rituals remote))) (o_rituals local)"

text \<open>The error text published after a pass that ran to completion with \<open>n\<close> errors.\<close>

definition failedItems :: "nat \<Rightarrow> string option" where
  "failedItems n = (if n > 0 then Some (decimal n @ '' item(s) failed to sync'') else None)"

text \<open>The remote objective is listed without pillars, metrics and rituals.\<close>

definition noChildren :: "api_objective \<Rightarrow> bool" where
  "noChildren r \<longleftrightarrow>
     (case ao_pillars r of None \<Rightarrow> True | Some ps \<Rightarrow> ps = [])
     \<and> (case ao_metrics r of None \<Rightarrow> True | Some ms \<Rightarrow> ms = [])
     \<and> (case ao_rituals r of None \<Rightarrow> True | Some rs \<Rightarrow> rs = [])"

text \<open>The request bodies of the creation calls that returned, in issuance order.\<close>

fun createdObjectives :: "calls \<Rightarrow> create_objective list" where
  "createdObjectives [] = []"
| "createdObjectives ((CreateObjective p, True) # cs) = p # createdObjectives cs"
| "createdObjectives (c # cs) = createdObjectives cs"

fun createdTasks :: "calls \<Rightarrow> create_task list" where
  "createdTasks [] = []"
| "createdTasks ((CreateTask p, True) # cs) = p # createdTasks cs"
| "createdTasks (c # cs) = createdTasks cs"

text \<open>A local objective that no remote objective matches, by identifier or by name.\<close>

definition localOnly :: "api_objective list \<Rightarrow> objective \<Rightarrow> bool" where
  "localOnly rs l \<longleftrightarrow>
     remoteMap rs (o_id l) = None \<and> remoteByName rs (toLowerCase (o_name l)) = None"

text \<open>The identifier of a local objective followed by those of its children.\<close>

definition ownIds :: "objective \<Rightarrow> string list" where
  "ownIds l = o_id l # childIds l"

section \<open>Notions used in the proofs\<close>

text \<open>The request body of the creation call for a local-only objective.\<close>

definition attempt :: "env \<Rightarrow> objective \<Rightarrow> store \<Rightarrow> create_objective" where
  "attempt e l w = createPayload l (fst (mintAll e l (idCount w)))"

text \<open>What one upload iteration, and so the upload loop, does to the store.\<close>

definition upRel :: "api_objective list \<Rightarrow> string list \<times> store \<Rightarrow> string list \<times> store \<Rightarrow> bool" where
  "upRel rs a b \<longleftrightarrow>
     (\<exists>xs. calls (snd b) = calls (snd a) @ xs
        \<and> (\<forall>c\<in>set xs. \<exists>p. fst c = CreateObjective p
              \<and> remoteByName rs (toLowerCase (co_name p)) = None)
        \<and> length (fst b) = length (fst a) + length (filter (\<lambda>c. \<not> snd c) xs))
     \<and> objectives (snd b) = objectives (snd a)
     \<and> tasks (snd b) = tasks (snd a)
     \<and> dom (idMapping (snd a)) \<subseteq> dom (idMapping (snd b))"

text \<open>The server answers a detail request with the objective asked for.\<close>

definition echoes :: "env \<Rightarrow> bool" where
  "echoes e \<longleftrightarrow> (\<forall>cs i r. getObjective e cs i = Inr r \<longrightarrow> ao_id r = i)"

text \<open>What the download loop does to the store.\<close>

definition dnRel :: "store \<Rightarrow> (string + unit) \<times> store \<Rightarrow> bool" where
  "dnRel w b \<longleftrightarrow>
     (\<exists>xs. calls (snd b) = calls w @ xs
        \<and> (\<forall>c\<in>set xs. \<exists>i. fst c = GetObjective i)
        \<and> (isl (fst b) \<longleftrightarrow> (\<exists>c\<in>set xs. \<not> snd c)))
     \<and> tasks (snd b) = tasks w
     \<and> idCount (snd b) = idCount w
     \<and> dom (idMapping w) \<subseteq> dom (idMapping (snd b))"

text \<open>Summary of a phase: its new calls against its outcome.\<close>

definition phaseOk :: "calls \<Rightarrow> string + string list \<Rightarrow> bool" where
  "phaseOk xs r \<longleftrightarrow>
     (case r of
        Inl msg \<Rightarrow> \<exists>c\<in>set xs. isFetch (fst c) \<and> \<not> snd c
      | Inr errs \<Rightarrow> (\<forall>c\<in>set xs. isFetch (fst c) \<longrightarrow> snd c)
          \<and> length errs = length (filter (\<lambda>c. \<not> snd c \<and> isCreate (fst c)) xs))"

text \<open>What the upload loop and the status loop of the task phase do to the store.\<close>

definition tuRel :: "string list \<times> store \<Rightarrow> string list \<times> store \<Rightarrow> bool" where
  "tuRel a b \<longleftrightarrow>
     (\<exists>xs. calls (snd b) = calls (snd a) @ xs
        \<and> (\<forall>c\<in>set xs. \<exists>p. fst c = CreateTask p)
        \<and> length (fst b) = length (fst a) + length (filter (\<lambda>c. \<not> snd c) xs))
     \<and> idMapping (snd b) = idMapping (snd a)
     \<and> objectives (snd b) = objectives (snd a)
     \<and> tasks (snd b) = tasks (snd a)"

definition tsRel :: "(string \<rightharpoonup> task) \<Rightarrow> task list \<Rightarrow> store \<Rightarrow> store \<Rightarrow> bool" where
  "tsRel rm ls a b \<longleftrightarrow>
     (\<exists>xs. calls b = calls a @ xs
        \<and> (\<forall>c\<in>set xs. \<exists>local\<in>set ls. \<exists>remote. rm (t_id local) = Some remote
              \<and> apiStatus local \<noteq> t_status remote
              \<and> fst c = UpdateTask (t_id local) (statusUpdate local)))
     \<and> idMapping b = idMapping a
     \<and> objectives b = objectives a
     \<and> tasks b = tasks a"

text \<open>The state published by a pass that ran to completion with \<open>n\<close> errors.\<close>

definition completed :: "env \<Rightarrow> nat \<Rightarrow> sync_state" where
  "completed e n =
     \<lparr> status = (if n > 0 then Error else Success),
       lastSyncAt = Some (now e),
       error = (if n > 0 then Some (decimal n @ '' item(s) failed to sync'') else None) \<rparr>"

text \<open>
  The registrations of one upload iteration that the next pass repeats: those of a match
  by identifier or by name, and the objective itself for an upload under its own identifier.
\<close>

definition target :: "api_objective list \<Rightarrow> objective \<Rightarrow> (string \<times> string) list" where
  "target rs l =
     (case remoteMap rs (o_id l) of
        Some r \<Rightarrow> (o_id l, o_id l) # childPairs l r
      | None \<Rightarrow>
         (case remoteByName rs (toLowerCase (o_name l)) of
            Some b \<Rightarrow> (o_id l, ao_id b) # childPairs l b
          | None \<Rightarrow> [(o_id l, o_id l)]))"

section \<open>Example stores and servers\<close>

text \<open>Plain entities, an empty store and a signed-in service around a store.\<close>

definition mkObjective :: "string \<Rightarrow> string \<Rightarrow> objective" where
  "mkObjective i n =
     \<lparr> o_id = i, o_name = n, o_category = ''health'', o_description = [], o_targetOutcome = [],
       o_pillars = [], o_metrics = [], o_rituals = [], o_startDate = 0, o_endDate = None,
       o_dailyCommitmentMinutes = 30, o_status = ''on_track'', o_priority = 1,
       o_isPaused = False, o_createdAt = 0, o_updatedAt = 0 \<rparr>"

definition mkRemote :: "string \<Rightarrow> string \<Rightarrow> api_objective" where
  "mkRemote i n =
     \<lparr> ao_id = i, ao_name = n, ao_category = ''health'', ao_description = None,
       ao_targetOutcome = None, ao_startDate = 0, ao_endDate = None,
       ao_dailyCommitmentMinutes = None, ao_status = ''on_track'', ao_priority = None,
       ao_isPaused = None, ao_createdAt = 0, ao_updatedAt = 0, ao_pillars = None,
       ao_metrics = None, ao_rituals = None \<rparr>"

definition mkTask :: "string \<Rightarrow> string \<Rightarrow> task_status \<Rightarrow> task" where
  "mkTask i ob st =
     \<lparr> t_id = i, t_objectiveId = ob, t_pillarId = None, t_ritualId = None, t_title = ''Run'',
       t_description = None, t_whyItMatters = None, t_scheduledAt = 0, t_durationMinutes = 30,
       t_status = st, t_completedAt = None, t_skippedReason = None \<rparr>"

definition mkStore :: "objective list \<Rightarrow> task list \<Rightarrow> store" where
  "mkStore obs ts =
     \<lparr> idMapping = Map.empty, objectives = obs, tasks = ts, calls = [], idCount = 0 \<rparr>"

definition mkService :: "store \<Rightarrow> service" where
  "mkService w =
     \<lparr> syncState = \<lparr> status = Idle, lastSyncAt = None, error = None \<rparr>,
       notified = [], isAuthenticated = True, data = w \<rparr>"

text \<open>
  A server that holds the given objectives and tasks, accepts every creation and every
  update, and hands out the \<open>n\<close>-th generated identifier as a UUID ending in \<open>n\<close>.
\<close>

definition server :: "api_objective list \<Rightarrow> task list \<Rightarrow> env" where
  "server remoteObjectives remoteTasks =
     \<lparr> getObjectives = (\<lambda>cs. Inr remoteObjectives),
       getObjective = (\<lambda>cs i.
          case find (\<lambda>r. ao_id r = i) remoteObjectives of
            None \<Rightarrow> Inl ''Objective not found''
          | Some r \<Rightarrow> Inr r),
       createObjective = (\<lambda>cs p. Inr (Some (mkRemote (co_id p) (co_name p)))),
       getTasks = (\<lambda>cs d. Inr remoteTasks),
       createTask = (\<lambda>cs p. Inr ()),
       updateTask = (\<lambda>cs i u. Inr ()),
       generateId = (\<lambda>n. ''00000000-0000-4000-8000-00000000000'' @ decimal n),
       today = ''2026-01-01'',
       now = 1000 \<rparr>"

text \<open>Servers on which one kind of call throws, and the stores they are run on.\<close>

definition updFailing :: env where
  "updFailing = (server [] [mkTask ''t1'' ''o1'' InProgress])
     \<lparr> updateTask := (\<lambda>cs i u. Inl ''Unable to connect to server'') \<rparr>"

definition overdueLocal :: service where
  "overdueLocal = mkService (mkStore [] [mkTask ''t1'' ''o1'' Overdue])"

definition createFailing :: env where
  "createFailing = (server [] [])
     \<lparr> createObjective := (\<lambda>cs p. Inl ''Unable to connect to server'') \<rparr>"

definition oneLocal :: service where
  "oneLocal = mkService (mkStore [mkObjective ''obj-1'' ''Fitness''] [])"

definition dupRemotes :: "api_objective list" where
  "dupRemotes = [mkRemote ''b1'' ''fitness'', mkRemote ''b2'' ''FITNESS'']"

definition fitnessLocal :: service where
  "fitnessLocal = mkService (mkStore [mkObjective ''a'' ''Fitness''] [])"

definition uuidC :: string where "uuidC = ''11111111-1111-4111-8111-111111111111''"

definition uuidP :: string where "uuidP = ''22222222-2222-4222-8222-222222222222''"

definition books :: "string \<Rightarrow> string \<Rightarrow> pillar" where
  "books i n = \<lparr> p_id = i, p_name = n, p_description = None, p_weight = 1, p_progress = 0 \<rparr>"

definition reading :: api_objective where
  "reading = (mkRemote uuidC ''Reading'')\<lparr>ao_pillars := Some [books uuidP ''Books'']\<rparr>"

definition retrying :: env where
  "retrying = (server [reading] [])
     \<lparr> createObjective := (\<lambda>cs p. Inl ''Unable to connect to server'') \<rparr>"

definition readingLocal :: service where
  "readingLocal = mkService (mkStore
     [(mkObjective uuidC ''Reading'')\<lparr>o_pillars := [books ''p-local'' ''books'']\<rparr>]
     [mkTask ''t1'' uuidC Overdue])"

text \<open>
  A server that lists one objective at the first call of a session and none afterwards,
  and on which every creation throws.
\<close>

definition vanishing :: env where
  "vanishing = (server [] [])
     \<lparr> getObjectives := (\<lambda>cs. if cs = [] then Inr [mkRemote ''b'' ''fitness''] else Inr []),
       getObjective := (\<lambda>cs i. Inr (mkRemote i ''fitness'')),
       createObjective := (\<lambda>cs p. Inl ''Unable to connect to server'') \<rparr>"

definition detailFailing :: env where
  "detailFailing = (server [mkRemote ''r1'' ''Reading'', mkRemote ''r2'' ''Writing''] [])
     \<lparr> getObjective := (\<lambda>cs i. Inl ''Unable to connect to server'') \<rparr>"

text \<open>
  A server that lists the objective \<open>r1\<close> and, after it, every objective created so far
  under the identifier and name submitted, without pillars, metrics and rituals; it lists
  every task created so far.
\<close>

definition listed :: "calls \<Rightarrow> api_objective list" where
  "listed cs = mkRemote ''r1'' ''Writing''
     # map (\<lambda>p. mkRemote (co_id p) (co_name p)) (createdObjectives cs)"

definition listing :: env where
  "listing = (server [] [])
     \<lparr> getObjectives := (\<lambda>cs. Inr (listed cs)),
       getObjective := (\<lambda>cs i.
          case find (\<lambda>r. ao_id r = i) (listed cs) of
            None \<Rightarrow> Inl ''Objective not found''
          | Some r \<Rightarrow> Inr r),
       getTasks := (\<lambda>cs d. Inr (map (\<lambda>p. mkTask (ct_id p) (ct_objectiveId p) Pending)
          (createdTasks cs))) \<rparr>"

definition uuidT :: string where "uuidT = ''33333333-3333-4333-8333-333333333333''"

definition legacy :: service where
  "legacy = mkService (mkStore [mkObjective ''obj-1'' ''Fitness'']
     [mkTask ''t1'' ''obj-1'' Pending])"

definition fresh :: service where
  "fresh = mkService (mkStore
     [(mkObjective uuidC ''Reading'')\<lparr>o_pillars := [books ''p-local'' ''Books'']\<rparr>]
     [mkTask uuidT uuidC Pending])"

definition withChildren :: objective where
  "withChildren = (mkObjective ''obj-2'' ''Reading'')
     \<lparr> o_pillars := [books ''p1'' ''Books''],
       o_metrics := [\<lparr> m_id = ''m1'', m_name = ''Pages'', m_unit = ''pages'', m_type = ''number'',
          m_target = Some 30, m_targetDirection = Some ''increase'', m_current = None,
          m_history = [], m_source = ''manual'', m_pillarId = Some ''p1'' \<rparr>],
       o_rituals := [\<lparr> r_id = ''r1'', r_name = ''Evening read'', r_description = None,
          r_frequency = ''daily'', r_daysOfWeek = None, r_timesPerPeriod = 1,
          r_currentStreak = 0, r_longestStreak = 0, r_completionsThisPeriod = 0,
          r_completionHistory = [], r_pillarId = Some ''p1'', r_estimatedMinutes = Some 20 \<rparr>] \<rparr>"

definition twoTasks :: store where
  "twoTasks = (mkStore [] [mkTask ''t1'' ''o-unmapped'' Pending, mkTask ''t2'' ''o1'' Pending])
     \<lparr>idMapping := [''o1'' \<mapsto> ''o1'']\<rparr>"

section \<open>Lemmas\<close>

lemma find_append_opt:
  "find P (xs @ ys) = (case find P xs of None \<Rightarrow> find P ys | Some x \<Rightarrow> Some x)"
  by (induction xs) auto

lemma fold_index_find:
  "fold (\<lambda>x m. m(key x \<mapsto> x)) xs m k =
     (case find (\<lambda>x. key x = k) (rev xs) of None \<Rightarrow> m k | Some x \<Rightarrow> Some x)"
  by (induction xs arbitrary: m) (auto simp: find_append_opt split: option.splits)

lemma fold_index_None_gen:
  "fold (\<lambda>x m. m(key x \<mapsto> x)) xs m k = None \<longleftrightarrow> m k = None \<and> k \<notin> key ` set xs"
  by (induction xs arbitrary: m) auto

lemma fold_index_None:
  "fold (\<lambda>x m. m(key x \<mapsto> x)) xs Map.empty k = None \<longleftrightarrow> k \<notin> key ` set xs"
  by (simp add: fold_index_None_gen)

lemma fold_rel:
  assumes refl: "\<And>a. R a a"
    and trans: "\<And>a b c. R a b \<Longrightarrow> R b c \<Longrightarrow> R a c"
    and step: "\<And>x a. x \<in> set xs \<Longrightarrow> R a (f x a)"
  shows "R a (fold f xs a)"
  using step
proof (induction xs arbitrary: a)
  case Nil
  show ?case by (simp add: refl)
next
  case (Cons x xs)
  have "R a (f x a)" using Cons.prems by simp
  moreover have "R (f x a) (fold f xs (f x a))" using Cons.IH Cons.prems by simp
  ultimately show ?case using trans by simp
qed

lemma register_Nil [simp]: "register [] m = m"
  by (simp add: register_def)

lemma register_Cons [simp]: "register (pm # pairs) m = register pairs (m(fst pm \<mapsto> snd pm))"
  by (simp add: register_def)

lemma register_append: "register (xs @ ys) m = register ys (register xs m)"
  by (simp add: register_def)

lemma register_apply:
  "register pairs m k = (case map_of (rev pairs) k of None \<Rightarrow> m k | Some v \<Rightarrow> Some v)"
  by (induction pairs arbitrary: m) (auto simp: map_add_def split: option.splits)

lemma register_idem: "register pairs (register pairs m) = register pairs m"
  by (rule ext) (simp add: register_apply split: option.splits)

lemma register_dom: "dom (register pairs m) = dom m \<union> fst ` set pairs"
  by (induction pairs arbitrary: m) auto

lemma register_other: "k \<notin> fst ` set pairs \<Longrightarrow> register pairs m k = m k"
  by (induction pairs arbitrary: m) auto

lemma fold_case_register:
  "fold (\<lambda>x m. case g x of None \<Rightarrow> m | Some v \<Rightarrow> m(k x \<mapsto> h v)) xs m =
     register (List.map_filter (\<lambda>x. map_option (\<lambda>v. (k x, h v)) (g x)) xs) m"
  by (induction xs arbitrary: m) (auto split: option.splits)

lemma set_map_filter:
  "set (List.map_filter f xs) = {y. \<exists>x\<in>set xs. f x = Some y}"
  by (induction xs) (auto split: option.splits)

lemma mapPillarsAndRituals_register:
  "mapPillarsAndRituals local remote m = register (childPairs local remote) m"
  by (simp add: mapPillarsAndRituals_def childPairs_def Let_def fold_case_register register_append)

lemma childPairs_keys: "fst ` set (childPairs local remote) \<subseteq> set (childIds local)"
  by (auto simp: childPairs_def childIds_def set_map_filter)

lemma fold_inv:
  assumes "P a" and "\<And>x a. x \<in> set xs \<Longrightarrow> P a \<Longrightarrow> P (f x a)"
  shows "P (fold f xs a)"
  using fold_rel[where R = "\<lambda>a b. P a \<longrightarrow> P b" and f = f and xs = xs and a = a] assms
  by blast

lemma remoteMap_None: "remoteMap rs k = None \<longleftrightarrow> k \<notin> ao_id ` set rs"
  unfolding remoteMap_def by (rule fold_index_None)

lemma localMap_None: "localMap ls k = None \<longleftrightarrow> k \<notin> o_id ` set ls"
  unfolding localMap_def by (rule fold_index_None)

lemma taskMap_None: "taskMap ts k = None \<longleftrightarrow> k \<notin> t_id ` set ts"
  unfolding taskMap_def by (rule fold_index_None)

lemma uploadStep_byId:
  "remoteMap rs (o_id l) = Some r \<Longrightarrow>
   uploadStep e rs l acc =
     (fst acc, (snd acc)\<lparr>idMapping :=
        register (childPairs l r) ((idMapping (snd acc))(o_id l \<mapsto> o_id l))\<rparr>)"
  by (simp add: uploadStep_def Let_def mapPillarsAndRituals_register)

lemma uploadStep_byName:
  "remoteMap rs (o_id l) = None \<Longrightarrow> remoteByName rs (toLowerCase (o_name l)) = Some r \<Longrightarrow>
   uploadStep e rs l acc =
     (fst acc, (snd acc)\<lparr>idMapping :=
        register (childPairs l r) ((idMapping (snd acc))(o_id l \<mapsto> ao_id r))\<rparr>)"
  by (simp add: uploadStep_def Let_def mapPillarsAndRituals_register)

lemma uploadStep_new:
  assumes "remoteMap rs (o_id l) = None" "remoteByName rs (toLowerCase (o_name l)) = None"
  shows "uploadStep e rs l acc =
     (case createObjective e (calls (snd acc)) (attempt e l (snd acc)) of
        Inl err \<Rightarrow>
          (fst acc @ [uploadFailed ''objective'' (o_name l)],
           logCall (CreateObjective (attempt e l (snd acc))) False
             ((snd acc)\<lparr>idCount := snd (mintAll e l (idCount (snd acc)))\<rparr>))
      | Inr None \<Rightarrow>
          (fst acc,
           logCall (CreateObjective (attempt e l (snd acc))) True
             ((snd acc)\<lparr>idCount := snd (mintAll e l (idCount (snd acc)))\<rparr>))
      | Inr (Some created) \<Rightarrow>
          (fst acc,
           (logCall (CreateObjective (attempt e l (snd acc))) True
             ((snd acc)\<lparr>idCount := snd (mintAll e l (idCount (snd acc)))\<rparr>))
           \<lparr>idMapping := registerAll l (fst (mintAll e l (idCount (snd acc))))
                           (idMapping (snd acc))\<rparr>))"
  using assms
  by (simp add: uploadStep_def Let_def attempt_def logCall_def split: sum.splits option.splits)

lemma attempt_name [simp]: "co_name (attempt e l w) = o_name l"
  by (simp add: attempt_def createPayload_def)

lemma upRel_refl: "upRel rs a a"
  by (simp add: upRel_def)

lemma upRel_trans: "upRel rs a b \<Longrightarrow> upRel rs b c \<Longrightarrow> upRel rs a c"
  unfolding upRel_def
  apply (elim conjE exE)
  subgoal for xs ys
    apply (intro conjI)
       apply (rule exI[where x = "xs @ ys"])
       apply auto
    done
  done

lemma upRel_step: "upRel rs a (uploadStep e rs l a)"
proof (cases "remoteMap rs (o_id l)")
  case (Some r)
  then show ?thesis
    by (auto simp: uploadStep_byId upRel_def register_dom)
next
  case None
  note idNone = this
  show ?thesis
  proof (cases "remoteByName rs (toLowerCase (o_name l))")
    case (Some r)
    then show ?thesis using idNone
      by (auto simp: uploadStep_byName upRel_def register_dom)
  next
    case None
    then show ?thesis using idNone
      by (auto simp: uploadStep_new upRel_def logCall_def registerAll_def register_dom
          split: sum.splits option.splits)
  qed
qed

lemma upRel_loop: "upRel rs a (fold (uploadStep e rs) ls a)"
  by (rule fold_rel[where R = "upRel rs"]) (auto intro: upRel_refl upRel_trans upRel_step)

lemma materialize_id [simp]: "o_id (materialize full) = ao_id full"
  by (simp add: materialize_def)

lemma dnRel_loop: "dnRel w (downloadLoop e lm rs w)"
proof (induction rs arbitrary: w)
  case Nil
  show ?case by (simp add: dnRel_def)
next
  case (Cons r rs)
  show ?case
  proof (cases "lm (ao_id r) \<noteq> None")
    case True
    then show ?thesis using Cons.IH[of w] by simp
  next
    case False
    show ?thesis
    proof (cases "getObjective e (calls w) (ao_id r)")
      case (Inl err)
      then show ?thesis using False
        by (simp add: dnRel_def logCall_def)
    next
      case (Inr full)
      let ?w' = "(addObjective (materialize full) (logCall (GetObjective (ao_id r)) True w))
                   \<lparr>idMapping := (idMapping w)(ao_id full \<mapsto> ao_id full)\<rparr>"
      have step: "downloadLoop e lm (r # rs) w = downloadLoop e lm rs ?w'"
        using False Inr by (simp add: Let_def addObjective_def logCall_def)
      have "dnRel ?w' (downloadLoop e lm rs ?w')" by (rule Cons.IH)
      then obtain xs where xs: "calls (snd (downloadLoop e lm rs ?w')) = calls ?w' @ xs"
          "\<forall>c\<in>set xs. \<exists>i. fst c = GetObjective i"
          "isl (fst (downloadLoop e lm rs ?w')) \<longleftrightarrow> (\<exists>c\<in>set xs. \<not> snd c)"
        and rest: "tasks (snd (downloadLoop e lm rs ?w')) = tasks ?w'"
          "idCount (snd (downloadLoop e lm rs ?w')) = idCount ?w'"
          "dom (idMapping ?w') \<subseteq> dom (idMapping (snd (downloadLoop e lm rs ?w')))"
        unfolding dnRel_def by blast
      have c: "calls ?w' = calls w @ [(GetObjective (ao_id r), True)]"
        by (simp add: addObjective_def logCall_def)
      show ?thesis
        unfolding dnRel_def step
        apply (intro conjI)
           apply (rule exI[where x = "(GetObjective (ao_id r), True) # xs"])
        using xs rest c
           apply (auto simp: addObjective_def logCall_def)
        done
    qed
  qed
qed

lemma downloadLoop_key:
  assumes "echoes e" "lm a \<noteq> None"
  shows "idMapping (snd (downloadLoop e lm rs w)) a = idMapping w a"
proof (induction rs arbitrary: w)
  case Nil
  show ?case by simp
next
  case (Cons r rs)
  show ?case
  proof (cases "lm (ao_id r) \<noteq> None")
    case True
    then show ?thesis using Cons.IH[of w] by simp
  next
    case False
    then have ne: "ao_id r \<noteq> a" using assms(2) by auto
    show ?thesis
    proof (cases "getObjective e (calls w) (ao_id r)")
      case (Inl err)
      then show ?thesis using False by (simp add: logCall_def)
    next
      case (Inr full)
      then have "ao_id full = ao_id r" using assms(1) by (auto simp: echoes_def)
      then show ?thesis using False Inr ne
        by (simp add: Let_def Cons.IH addObjective_def logCall_def)
    qed
  qed
qed

lemma downloadLoop_aligned:
  "\<forall>r\<in>set rs. lm (ao_id r) \<noteq> None \<Longrightarrow> downloadLoop e lm rs w = (Inr (), w)"
  by (induction rs arbitrary: w) auto

lemma filter_creates:
  "\<forall>c\<in>set xs. \<exists>p. fst c = CreateObjective p \<Longrightarrow>
   filter (\<lambda>c. \<not> snd c \<and> isCreate (fst c)) xs = filter (\<lambda>c. \<not> snd c) xs"
  by (rule filter_cong) auto

lemma filter_fetches:
  "\<forall>c\<in>set xs. \<exists>i. fst c = GetObjective i \<Longrightarrow>
   filter (\<lambda>c. \<not> snd c \<and> isCreate (fst c)) xs = []"
  by (auto simp: filter_empty_conv)

lemma syncObjectives_summary:
  "\<exists>xs. calls (snd (syncObjectives e w)) = calls w @ xs
      \<and> phaseOk xs (fst (syncObjectives e w))
      \<and> (\<forall>c\<in>set xs. \<not> isUpdate (fst c) \<and> (\<forall>p. fst c \<noteq> CreateTask p))
      \<and> (\<forall>rs. getObjectives e (calls w) = Inr rs \<longrightarrow>
            (\<forall>c\<in>set xs. \<forall>p. fst c = CreateObjective p \<longrightarrow>
               remoteByName rs (toLowerCase (co_name p)) = None))
      \<and> tasks (snd (syncObjectives e w)) = tasks w
      \<and> dom (idMapping w) \<subseteq> dom (idMapping (snd (syncObjectives e w)))"
proof (cases "getObjectives e (calls w)")
  case (Inl err)
  then show ?thesis
    by (simp add: syncObjectives_def logCall_def phaseOk_def)
next
  case (Inr rs)
  let ?w0 = "logCall GetObjectives True w"
  let ?up = "fold (uploadStep e rs) (objectives w) ([], ?w0)"
  let ?dn = "downloadLoop e (localMap (objectives w)) rs (snd ?up)"
  have res: "syncObjectives e w =
      (case fst ?dn of Inl err \<Rightarrow> Inl err | Inr u \<Rightarrow> Inr (fst ?up), snd ?dn)"
    using Inr by (simp add: syncObjectives_def Let_def split: prod.splits sum.splits)
  have "upRel rs ([], ?w0) ?up" by (rule upRel_loop)
  then obtain xs where xs: "calls (snd ?up) = calls ?w0 @ xs"
      "\<forall>c\<in>set xs. \<exists>p. fst c = CreateObjective p
          \<and> remoteByName rs (toLowerCase (co_name p)) = None"
      "length (fst ?up) = length (filter (\<lambda>c. \<not> snd c) xs)"
    and u2: "tasks (snd ?up) = tasks ?w0" "dom (idMapping ?w0) \<subseteq> dom (idMapping (snd ?up))"
    unfolding upRel_def by auto
  have "dnRel (snd ?up) ?dn" by (rule dnRel_loop)
  then obtain ys where ys: "calls (snd ?dn) = calls (snd ?up) @ ys"
      "\<forall>c\<in>set ys. \<exists>i. fst c = GetObjective i"
      "isl (fst ?dn) \<longleftrightarrow> (\<exists>c\<in>set ys. \<not> snd c)"
    and d2: "tasks (snd ?dn) = tasks (snd ?up)"
      "dom (idMapping (snd ?up)) \<subseteq> dom (idMapping (snd ?dn))"
    unfolding dnRel_def by auto
  have c0: "calls ?w0 = calls w @ [(GetObjectives, True)]" "tasks ?w0 = tasks w"
    "idMapping ?w0 = idMapping w"
    by (simp_all add: logCall_def)
  have xs': "\<forall>c\<in>set xs. \<exists>p. fst c = CreateObjective p" using xs(2) by blast
  have cnt: "length (filter (\<lambda>c. \<not> snd c \<and> isCreate (fst c)) ((GetObjectives, True) # xs @ ys))
      = length (filter (\<lambda>c. \<not> snd c) xs)"
    using filter_creates[OF xs'] filter_fetches[OF ys(2)] by simp
  show ?thesis
    apply (rule exI[where x = "(GetObjectives, True) # xs @ ys"])
    apply (intro conjI)
    subgoal using xs(1) ys(1) c0 by (simp add: res)
    subgoal
    proof (cases "fst ?dn")
      case (Inl err)
      then obtain c where "c \<in> set ys" "\<not> snd c" using ys(3) by auto
      moreover from this ys(2) have "isFetch (fst c)" by fastforce
      ultimately show ?thesis using Inl by (auto simp: res phaseOk_def)
    next
      case (Inr u)
      then have "\<forall>c\<in>set ys. snd c" using ys(3) by auto
      moreover have "\<forall>c\<in>set xs. \<not> isFetch (fst c)" using xs' by fastforce
      ultimately show ?thesis using Inr cnt xs(3)
        by (auto simp: res phaseOk_def simp del: filter_append filter.simps)
    qed
    subgoal using xs' ys(2) by fastforce
    subgoal using xs(2) ys(2) Inr by fastforce
    subgoal using u2 d2 c0 by (simp add: res)
    subgoal using u2 d2 c0 by (auto simp: res)
    done
qed

lemma isUpdate_only: "isUpdate c \<Longrightarrow> \<not> isCreate c \<and> \<not> isFetch c"
  by (cases c) auto

lemma taskUploadStep_skip:
  "rm (t_id t) \<noteq> None \<or> idMapping (snd acc) (t_objectiveId t) = None
     \<or> idMapping (snd acc) (t_objectiveId t) = Some [] \<Longrightarrow>
   taskUploadStep e rm t acc = acc"
  by (auto simp: taskUploadStep_def Let_def split: option.splits)

lemma tuRel_refl: "tuRel a a"
  by (simp add: tuRel_def)

lemma tuRel_trans: "tuRel a b \<Longrightarrow> tuRel b c \<Longrightarrow> tuRel a c"
  unfolding tuRel_def
  apply (elim conjE exE)
  subgoal for xs ys
    apply (intro conjI)
       apply (rule exI[where x = "xs @ ys"])
       apply auto
    done
  done

lemma tuRel_step: "tuRel a (taskUploadStep e rm t a)"
  by (auto simp: taskUploadStep_def tuRel_def Let_def logCall_def
      split: option.splits sum.splits prod.splits)

lemma tuRel_loop: "tuRel a (fold (taskUploadStep e rm) ts a)"
  by (rule fold_rel[where R = tuRel]) (auto intro: tuRel_refl tuRel_trans tuRel_step)

lemma tsRel_refl: "tsRel rm ls a a"
  by (simp add: tsRel_def)

lemma tsRel_trans: "tsRel rm ls a b \<Longrightarrow> tsRel rm ls b c \<Longrightarrow> tsRel rm ls a c"
  unfolding tsRel_def
  apply (elim conjE exE)
  subgoal for xs ys
    apply (intro conjI)
       apply (rule exI[where x = "xs @ ys"])
       apply auto
    done
  done

lemma tsRel_step: "t \<in> set ls \<Longrightarrow> tsRel rm ls a (statusStep e rm t a)"
  by (auto simp: statusStep_def tsRel_def Let_def logCall_def split: option.splits)

lemma tsRel_loop: "tsRel rm ls a (fold (statusStep e rm) ls a)"
  by (rule fold_rel[where R = "tsRel rm ls"]) (auto intro: tsRel_refl tsRel_trans tsRel_step)

lemma taskDownload_loop:
  "calls (fold (taskDownloadStep lm) rs w) = calls w
   \<and> idMapping (fold (taskDownloadStep lm) rs w) = idMapping w
   \<and> objectives (fold (taskDownloadStep lm) rs w) = objectives w"
  by (rule fold_inv[where P = "\<lambda>b. calls b = calls w \<and> idMapping b = idMapping w
        \<and> objectives b = objectives w"])
     (auto simp: taskDownloadStep_def addTasks_def)

lemma syncTasks_summary:
  "\<exists>xs. calls (snd (syncTasks e w)) = calls w @ xs
      \<and> phaseOk xs (fst (syncTasks e w))
      \<and> (\<forall>c\<in>set xs. \<forall>p. fst c \<noteq> CreateObjective p)
      \<and> (\<forall>c\<in>set xs. \<forall>i u. fst c = UpdateTask i u \<longrightarrow>
            (\<exists>remoteTasks. getTasks e (calls w) (today e) = Inr remoteTasks
               \<and> (\<exists>local\<in>set (tasks w). \<exists>remote.
                     taskMap remoteTasks (t_id local) = Some remote
                   \<and> apiStatus local \<noteq> t_status remote
                   \<and> i = t_id local \<and> u = statusUpdate local)))
      \<and> idMapping (snd (syncTasks e w)) = idMapping w
      \<and> objectives (snd (syncTasks e w)) = objectives w"
proof (cases "getTasks e (calls w) (today e)")
  case (Inl err)
  then show ?thesis
    by (simp add: syncTasks_def logCall_def phaseOk_def)
next
  case (Inr rts)
  let ?w0 = "logCall (GetTasks (today e)) True w"
  let ?rm = "taskMap rts"
  let ?up = "fold (taskUploadStep e ?rm) (tasks w) ([], ?w0)"
  let ?w2 = "fold (statusStep e ?rm) (tasks w) (snd ?up)"
  let ?w3 = "fold (taskDownloadStep (taskMap (tasks w))) rts ?w2"
  have res: "syncTasks e w = (Inr (fst ?up), ?w3)"
    using Inr by (simp add: syncTasks_def Let_def)
  have "tuRel ([], ?w0) ?up" by (rule tuRel_loop)
  then obtain xs where xs: "calls (snd ?up) = calls ?w0 @ xs"
      "\<forall>c\<in>set xs. \<exists>p. fst c = CreateTask p"
      "length (fst ?up) = length (filter (\<lambda>c. \<not> snd c) xs)"
    and u2: "idMapping (snd ?up) = idMapping ?w0" "objectives (snd ?up) = objectives ?w0"
    unfolding tuRel_def by auto
  have "tsRel ?rm (tasks w) (snd ?up) ?w2" by (rule tsRel_loop)
  then obtain ys where ys: "calls ?w2 = calls (snd ?up) @ ys"
      "\<forall>c\<in>set ys. \<exists>local\<in>set (tasks w). \<exists>remote. ?rm (t_id local) = Some remote
              \<and> apiStatus local \<noteq> t_status remote
              \<and> fst c = UpdateTask (t_id local) (statusUpdate local)"
    and s2: "idMapping ?w2 = idMapping (snd ?up)" "objectives ?w2 = objectives (snd ?up)"
    unfolding tsRel_def by auto
  have d: "calls ?w3 = calls ?w2" "idMapping ?w3 = idMapping ?w2"
    "objectives ?w3 = objectives ?w2"
    using taskDownload_loop[of "taskMap (tasks w)" rts ?w2] by auto
  have c0: "calls ?w0 = calls w @ [(GetTasks (today e), True)]" "idMapping ?w0 = idMapping w"
    "objectives ?w0 = objectives w"
    by (simp_all add: logCall_def)
  have ysU: "\<forall>c\<in>set ys. isUpdate (fst c)" using ys(2) by fastforce
  have f1: "filter (\<lambda>c. \<not> snd c \<and> isCreate (fst c)) xs = filter (\<lambda>c. \<not> snd c) xs"
    by (rule filter_cong) (use xs(2) in auto)
  have f2: "filter (\<lambda>c. \<not> snd c \<and> isCreate (fst c)) ys = []"
    using ysU by (fastforce simp: filter_empty_conv dest: isUpdate_only)
  have cnt: "length (filter (\<lambda>c. \<not> snd c \<and> isCreate (fst c))
                ((GetTasks (today e), True) # xs @ ys)) = length (filter (\<lambda>c. \<not> snd c) xs)"
    using f1 f2 by simp
  have nf: "\<forall>c\<in>set (xs @ ys). \<not> isFetch (fst c)"
    using xs(2) ysU by (fastforce dest: isUpdate_only)
  show ?thesis
    apply (rule exI[where x = "(GetTasks (today e), True) # xs @ ys"])
    apply (intro conjI)
    subgoal using xs(1) ys(1) d c0 by (simp add: res)
    subgoal using cnt xs(3) nf
      by (auto simp: res phaseOk_def simp del: filter_append filter.simps)
    subgoal using xs(2) ys(2) by fastforce
    subgoal using xs(2) ys(2) Inr by fastforce
    subgoal using u2 s2 d c0 by (simp add: res)
    subgoal using u2 s2 d c0 by (simp add: res)
    done
qed

lemma call_kinds: "isFetch c \<or> isCreate c \<or> isUpdate c"
  by (cases c) auto

lemma isCreate_not_fetch: "isCreate c \<Longrightarrow> \<not> isFetch c \<and> \<not> isUpdate c"
  by (cases c) auto

lemma newCalls_append: "calls w' = calls w @ xs \<Longrightarrow> newCalls w w' = xs"
  by (simp add: newCalls_def)

lemma phaseOk_Inl: "phaseOk xs (Inl m) \<Longrightarrow> \<not> (\<forall>c\<in>set xs. isFetch (fst c) \<longrightarrow> snd c)"
  by (auto simp: phaseOk_def)

lemma phaseOk_Inr:
  "phaseOk xs (Inr errs) \<Longrightarrow>
   (\<forall>c\<in>set xs. isFetch (fst c) \<longrightarrow> snd c)
   \<and> length errs = length (filter (\<lambda>c. \<not> snd c \<and> isCreate (fst c)) xs)"
  by (auto simp: phaseOk_def)

lemma syncAll_outcome:
  assumes auth: "isAuthenticated s"
  shows "\<exists>xs. calls (data (snd (syncAll e s))) = calls (data s) @ xs
    \<and> idMapping (data (snd (syncAll e s))) = idMapping (snd (syncObjectives e (data s)))
    \<and> (\<exists>ys zs. xs = ys @ zs \<and> calls (snd (syncObjectives e (data s))) = calls (data s) @ ys
          \<and> (\<forall>c\<in>set zs. \<forall>p. fst c \<noteq> CreateObjective p))
    \<and> (if \<forall>c\<in>set xs. isFetch (fst c) \<longrightarrow> snd c
        then success (fst (syncAll e s))
               = (length (filter (\<lambda>c. \<not> snd c \<and> isCreate (fst c)) xs) = 0)
           \<and> syncState (snd (syncAll e s))
               = completed e (length (filter (\<lambda>c. \<not> snd c \<and> isCreate (fst c)) xs))
        else \<not> success (fst (syncAll e s))
           \<and> status (syncState (snd (syncAll e s))) = Error
           \<and> lastSyncAt (syncState (snd (syncAll e s))) = lastSyncAt (syncState s))"
proof -
  let ?s1 = "notifyListeners (s\<lparr>syncState := (syncState s)\<lparr>status := Syncing, error := None\<rparr>\<rparr>)"
  have d1: "data ?s1 = data s" "lastSyncAt (syncState ?s1) = lastSyncAt (syncState s)"
    by (simp_all add: notifyListeners_def)
  obtain ro wo where so: "syncObjectives e (data s) = (ro, wo)" by (cases "syncObjectives e (data s)")
  obtain ys where ys: "calls wo = calls (data s) @ ys" "phaseOk ys ro"
    using syncObjectives_summary[of e "data s"] so by auto
  show ?thesis
  proof (cases ro)
    case (Inl m)
    have r: "syncAll e s = syncFailed m wo ?s1"
      using auth so Inl d1 by (simp add: syncAll_def Let_def)
    have bad: "\<not> (\<forall>c\<in>set ys. isFetch (fst c) \<longrightarrow> snd c)"
      using ys(2) Inl phaseOk_Inl by blast
    show ?thesis
      apply (rule exI[where x = ys])
      apply (intro conjI)
      subgoal using ys(1) by (simp add: r syncFailed_def notifyListeners_def)
      subgoal using so by (simp add: r syncFailed_def notifyListeners_def)
      subgoal using ys(1) so by (intro exI[where x = ys] exI[where x = "[]"]) simp
      subgoal using d1 by (subst if_not_P[OF bad]) (simp add: r syncFailed_def notifyListeners_def)
      done
  next
    case (Inr oerrs)
    note oInr = this
    obtain rt wt where st: "syncTasks e wo = (rt, wt)" by (cases "syncTasks e wo")
    obtain zs where zs: "calls wt = calls wo @ zs" "phaseOk zs rt"
        "\<forall>c\<in>set zs. \<forall>p. fst c \<noteq> CreateObjective p" "idMapping wt = idMapping wo"
      using syncTasks_summary[of e wo] st by auto
    have okO: "\<forall>c\<in>set ys. isFetch (fst c) \<longrightarrow> snd c"
      and cntO: "length oerrs = length (filter (\<lambda>c. \<not> snd c \<and> isCreate (fst c)) ys)"
      using phaseOk_Inr ys(2) oInr by blast+
    show ?thesis
    proof (cases rt)
      case (Inl m)
      have r: "syncAll e s = syncFailed m wt ?s1"
        using auth so st oInr Inl d1 by (simp add: syncAll_def Let_def)
      have bad: "\<not> (\<forall>c\<in>set (ys @ zs). isFetch (fst c) \<longrightarrow> snd c)"
        using zs(2) Inl phaseOk_Inl by fastforce
      show ?thesis
        apply (rule exI[where x = "ys @ zs"])
        apply (intro conjI)
        subgoal using ys(1) zs(1) by (simp add: r syncFailed_def notifyListeners_def)
        subgoal using so zs(4) by (simp add: r syncFailed_def notifyListeners_def)
        subgoal using ys(1) zs(3) so by (intro exI[where x = ys] exI[where x = zs]) simp
        subgoal using d1 by (subst if_not_P[OF bad]) (simp add: r syncFailed_def notifyListeners_def)
        done
    next
      case (Inr terrs)
      have okT: "\<forall>c\<in>set zs. isFetch (fst c) \<longrightarrow> snd c"
        and cntT: "length terrs = length (filter (\<lambda>c. \<not> snd c \<and> isCreate (fst c)) zs)"
        using phaseOk_Inr zs(2) Inr by blast+
      let ?n = "length (oerrs @ terrs)"
      have n: "?n = length (filter (\<lambda>c. \<not> snd c \<and> isCreate (fst c)) (ys @ zs))"
        using cntO cntT by simp
      have r: "success (fst (syncAll e s)) = (?n = 0)"
          "syncState (snd (syncAll e s)) = completed e ?n"
          "data (snd (syncAll e s)) = wt"
        using auth so st oInr Inr d1
        by (simp_all add: syncAll_def Let_def notifyListeners_def completed_def)
      have ok: "\<forall>c\<in>set (ys @ zs). isFetch (fst c) \<longrightarrow> snd c"
        using okO okT by auto
      show ?thesis
        apply (rule exI[where x = "ys @ zs"])
        apply (intro conjI)
        subgoal using r(3) ys(1) zs(1) by simp
        subgoal using r(3) zs(4) so by simp
        subgoal using ys(1) zs(3) so by (intro exI[where x = ys] exI[where x = zs]) simp
        subgoal by (subst if_P[OF ok]) (simp only: r(1,2) n)
        done
    qed
  qed
qed

lemma mintIds_keys: "map fst (fst (mintIds e ids n)) = ids"
  by (induction ids arbitrary: n) (simp_all add: Let_def case_prod_beta)

lemma taskUploadStep_tasks:
  "taskUploadStep e rm x (errs, w\<lparr>tasks := T\<rparr>)
     = (fst (taskUploadStep e rm x (errs, w)), (snd (taskUploadStep e rm x (errs, w)))\<lparr>tasks := T\<rparr>)"
  by (auto simp: taskUploadStep_def Let_def logCall_def split: option.splits sum.splits prod.splits)

lemma taskUploadLoop_tasks:
  "fold (taskUploadStep e rm) xs (errs, w\<lparr>tasks := T\<rparr>)
     = (fst (fold (taskUploadStep e rm) xs (errs, w)),
        (snd (fold (taskUploadStep e rm) xs (errs, w)))\<lparr>tasks := T\<rparr>)"
proof (induction xs arbitrary: errs w)
  case Nil
  show ?case by simp
next
  case (Cons x xs)
  obtain errs' w' where st: "taskUploadStep e rm x (errs, w) = (errs', w')"
    by (cases "taskUploadStep e rm x (errs, w)")
  show ?case
    using Cons.IH[of errs' w'] st by (simp add: taskUploadStep_tasks)
qed

lemma statusStep_tasks:
  "statusStep e rm x (w\<lparr>tasks := T\<rparr>) = (statusStep e rm x w)\<lparr>tasks := T\<rparr>"
  by (auto simp: statusStep_def Let_def logCall_def split: option.splits)

lemma statusLoop_tasks:
  "fold (statusStep e rm) xs (w\<lparr>tasks := T\<rparr>) = (fold (statusStep e rm) xs w)\<lparr>tasks := T\<rparr>"
  by (induction xs arbitrary: w) (simp_all add: statusStep_tasks)

lemma statusStep_absent: "rm (t_id t) = None \<Longrightarrow> statusStep e rm t w = w"
  by (simp add: statusStep_def)

lemma taskDownload_calls: "calls (fold (taskDownloadStep lm) rs w) = calls w"
  using taskDownload_loop by blast

lemma taskUploadLoop_deferred:
  assumes "rm (t_id t) = None" and "idMapping w (t_objectiveId t) = None"
  shows "fold (taskUploadStep e rm) (before @ t # after) (errors, w)
       = fold (taskUploadStep e rm) (before @ after) (errors, w)"
proof -
  let ?mid = "fold (taskUploadStep e rm) before (errors, w)"
  have "tuRel (errors, w) ?mid" by (rule tuRel_loop)
  then have "idMapping (snd ?mid) = idMapping w" by (simp add: tuRel_def)
  then have "taskUploadStep e rm t ?mid = ?mid"
    using assms(2) by (intro taskUploadStep_skip) simp
  then show ?thesis by simp
qed

lemma registerAll_keys:
  "fst ` set (pillarMappings (fst (mintAll e l n)) @ metricMappings (fst (mintAll e l n))
        @ ritualMappings (fst (mintAll e l n))) = set (childIds l)"
proof -
  have "map fst (pillarMappings (fst (mintAll e l n)) @ metricMappings (fst (mintAll e l n))
        @ ritualMappings (fst (mintAll e l n))) = childIds l"
    by (simp add: mintAll_def childIds_def Let_def case_prod_beta mintIds_keys)
  then show ?thesis by (metis image_set)
qed

lemma uploadStep_other:
  assumes "a \<notin> set (o_id l # childIds l)"
  shows "idMapping (snd (uploadStep e rs l acc)) a = idMapping (snd acc) a"
proof -
  have k: "\<And>r. a \<notin> fst ` set (childPairs l r)"
    using assms childPairs_keys by fastforce
  have k': "a \<notin> fst ` set (pillarMappings (fst (mintAll e l (idCount (snd acc))))
        @ metricMappings (fst (mintAll e l (idCount (snd acc))))
        @ ritualMappings (fst (mintAll e l (idCount (snd acc)))))"
    using assms unfolding registerAll_keys by simp
  show ?thesis
  proof (cases "remoteMap rs (o_id l)")
    case (Some r)
    then show ?thesis using assms k by (simp add: uploadStep_byId register_other)
  next
    case None
    note idNone = this
    show ?thesis
    proof (cases "remoteByName rs (toLowerCase (o_name l))")
      case (Some r)
      then show ?thesis using assms k idNone by (simp add: uploadStep_byName register_other)
    next
      case None
      then show ?thesis using assms idNone register_other[OF k']
        by (auto simp: uploadStep_new logCall_def registerAll_def
            split: sum.splits option.splits)
    qed
  qed
qed

lemma uploadStep_matched:
  assumes "remoteMap rs (o_id l) = None" "remoteByName rs (toLowerCase (o_name l)) = Some b"
    "o_id l \<notin> set (childIds l)"
  shows "idMapping (snd (uploadStep e rs l acc)) (o_id l) = Some (ao_id b)"
proof -
  have "o_id l \<notin> fst ` set (childPairs l b)" using assms(3) childPairs_keys by fastforce
  then show ?thesis using assms(1,2) by (simp add: uploadStep_byName register_other)
qed

lemma uploadLoop_matched:
  assumes loc: "local \<in> set ls"
    and idNone: "remoteMap rs (o_id local) = None"
    and byName: "remoteByName rs (toLowerCase (o_name local)) = Some b"
    and only: "\<forall>l\<in>set ls. o_id local \<notin> set (childIds l) \<and> (o_id l = o_id local \<longrightarrow> l = local)"
  shows "idMapping (snd (fold (uploadStep e rs) ls acc)) (o_id local) = Some (ao_id b)"
proof -
  obtain pre post where sp: "ls = pre @ local # post" using loc by (meson split_list)
  let ?P = "\<lambda>acc :: string list \<times> store. idMapping (snd acc) (o_id local) = Some (ao_id b)"
  have keep: "\<And>l acc. l \<in> set ls \<Longrightarrow> ?P (uploadStep e rs l acc) \<or> (l \<noteq> local \<and>
      idMapping (snd (uploadStep e rs l acc)) (o_id local) = idMapping (snd acc) (o_id local))"
  proof -
    fix l acc assume l: "l \<in> set ls"
    show "?P (uploadStep e rs l acc) \<or> (l \<noteq> local \<and>
      idMapping (snd (uploadStep e rs l acc)) (o_id local) = idMapping (snd acc) (o_id local))"
    proof (cases "l = local")
      case True
      then show ?thesis using uploadStep_matched[OF idNone byName] only loc by blast
    next
      case False
      then have "o_id local \<notin> set (o_id l # childIds l)" using only l by auto
      then show ?thesis using False uploadStep_other by blast
    qed
  qed
  have first: "?P (uploadStep e rs local (fold (uploadStep e rs) pre acc))"
    using uploadStep_matched[OF idNone byName] only loc by blast
  have "?P (fold (uploadStep e rs) post (uploadStep e rs local (fold (uploadStep e rs) pre acc)))"
  proof (rule fold_inv[where P = ?P])
    show "?P (uploadStep e rs local (fold (uploadStep e rs) pre acc))" by (rule first)
  next
    fix x and a :: "string list \<times> store" assume "x \<in> set post" "?P a"
    then show "?P (uploadStep e rs x a)" using keep[of x a] sp by auto
  qed
  then show ?thesis by (simp add: sp)
qed

lemma syncObjectives_store:
  assumes "getObjectives e (calls w) = Inr rs"
  shows "snd (syncObjectives e w)
     = snd (downloadLoop e (localMap (objectives w)) rs
         (snd (fold (uploadStep e rs) (objectives w) ([], logCall GetObjectives True w))))"
  using assms by (simp add: syncObjectives_def Let_def split: prod.splits sum.splits)

lemma set_createdObjectives:
  "set (createdObjectives cs) = {p. (CreateObjective p, True) \<in> set cs}"
  by (induction cs rule: createdObjectives.induct) auto

lemma set_createdTasks:
  "set (createdTasks cs) = {p. (CreateTask p, True) \<in> set cs}"
  by (induction cs rule: createdTasks.induct) auto

lemma createdObjectives_append:
  "createdObjectives (xs @ ys) = createdObjectives xs @ createdObjectives ys"
  by (induction xs rule: createdObjectives.induct) auto

lemma findByName_empty: "(case xs of None \<Rightarrow> True | Some ys \<Rightarrow> ys = []) \<Longrightarrow> findByName nm n xs = None"
  by (auto simp: findByName_def split: option.splits)

lemma map_filter_None: "(\<And>x. x \<in> set xs \<Longrightarrow> f x = None) \<Longrightarrow> List.map_filter f xs = []"
  by (induction xs) auto

lemma childPairs_noChildren: "noChildren r \<Longrightarrow> childPairs l r = []"
  by (simp add: childPairs_def noChildren_def findByName_empty map_filter_None)

lemma map_filter_keys:
  "map fst (List.map_filter (\<lambda>x. map_option (\<lambda>v. (k x, h v)) (g x)) xs)
     = map k (filter (\<lambda>x. g x \<noteq> None) xs)"
  by (induction xs) (auto split: option.splits)

lemma distinct_filtered3:
  assumes "distinct (map f xs @ map g ys @ map h zs)"
  shows "distinct (map f (filter P xs) @ map g (filter Q ys) @ map h (filter R zs))"
proof -
  have s: "set (map f (filter P xs)) \<subseteq> set (map f xs)"
    "set (map g (filter Q ys)) \<subseteq> set (map g ys)"
    "set (map h (filter R zs)) \<subseteq> set (map h zs)"
    by auto
  have d: "distinct (map f xs)" "distinct (map g ys)" "distinct (map h zs)"
    "set (map f xs) \<inter> set (map g ys) = {}" "set (map f xs) \<inter> set (map h zs) = {}"
    "set (map g ys) \<inter> set (map h zs) = {}"
    using assms by auto
  have "set (map f (filter P xs)) \<inter> set (map g (filter Q ys)) = {}"
    "set (map f (filter P xs)) \<inter> set (map h (filter R zs)) = {}"
    "set (map g (filter Q ys)) \<inter> set (map h (filter R zs)) = {}"
    using s d(4,5,6) by blast+
  then show ?thesis
    using d(1,2,3) by (simp add: distinct_map_filter Int_Un_distrib)
qed

lemma childPairs_distinct:
  assumes "distinct (childIds l)"
  shows "distinct (map fst (childPairs l r))"
  using assms unfolding childIds_def childPairs_def
  by (simp only: map_append map_filter_keys) (rule distinct_filtered3)

lemma register_present:
  "\<forall>p\<in>set ps. m (fst p) = Some (snd p) \<Longrightarrow> register ps m = m"
proof (induction ps arbitrary: m)
  case Nil
  show ?case by simp
next
  case (Cons p ps)
  then have "m(fst p \<mapsto> snd p) = m" by (auto simp: fun_eq_iff)
  then show ?case using Cons by simp
qed

lemma register_distinct:
  assumes "distinct (map fst ps)" "p \<in> set ps"
  shows "register ps m (fst p) = Some (snd p)"
proof -
  have "map_of (rev ps) (fst p) = Some (snd p)"
    using assms by (intro map_of_is_SomeI) (auto simp: rev_map[symmetric])
  then show ?thesis by (simp add: register_apply)
qed

lemma attempt_id: "isValidUUID (o_id l) \<Longrightarrow> co_id (attempt e l w) = o_id l"
  by (simp add: attempt_def createPayload_def mintAll_def mintId_def Let_def case_prod_beta)

lemma mintAll_objectiveId:
  "isValidUUID (o_id l) \<Longrightarrow> objectiveId (fst (mintAll e l n)) = o_id l"
  by (simp add: mintAll_def mintId_def Let_def case_prod_beta)

lemma uploadStep_errors:
  "fst (uploadStep e rs l acc) = fst acc
   \<or> (localOnly rs l \<and> isl (createObjective e (calls (snd acc)) (attempt e l (snd acc)))
       \<and> fst (uploadStep e rs l acc) = fst acc @ [uploadFailed ''objective'' (o_name l)])"
proof (cases "remoteMap rs (o_id l)")
  case (Some r)
  then show ?thesis by (simp add: uploadStep_byId)
next
  case None
  note idNone = this
  show ?thesis
  proof (cases "remoteByName rs (toLowerCase (o_name l))")
    case (Some r)
    then show ?thesis using idNone by (simp add: uploadStep_byName)
  next
    case None
    then show ?thesis using idNone
      by (auto simp: uploadStep_new localOnly_def split: sum.splits option.splits)
  qed
qed

lemma uploadLoop_errors: "\<exists>ys. fst (fold (uploadStep e rs) ls acc) = fst acc @ ys"
proof (rule fold_rel[where R = "\<lambda>a b. \<exists>ys. fst b = fst a @ ys"])
  show "\<And>a :: string list \<times> store. \<exists>ys. fst a = fst a @ ys" by simp
  show "\<And>a b c :: string list \<times> store.
      \<exists>ys. fst b = fst a @ ys \<Longrightarrow> \<exists>ys. fst c = fst b @ ys \<Longrightarrow> \<exists>ys. fst c = fst a @ ys"
    by auto
  show "\<And>x a. x \<in> set ls \<Longrightarrow> \<exists>ys. fst (uploadStep e rs x a) = fst a @ ys"
    using uploadStep_errors by (metis append_Nil2)
qed

text \<open>An upload iteration that records no error.\<close>

lemma uploadStep_ok:
  assumes noerr: "fst (uploadStep e rs l acc) = fst acc"
    and returns: "\<forall>cs p. createObjective e cs p \<noteq> Inr None"
    and dist: "distinct (ownIds l)"
    and uuid: "localOnly rs l \<longrightarrow> isValidUUID (o_id l)"
  shows "(\<forall>p\<in>set (target rs l). idMapping (snd (uploadStep e rs l acc)) (fst p) = Some (snd p))
     \<and> calls (snd (uploadStep e rs l acc))
         = calls (snd acc)
           @ (if localOnly rs l then [(CreateObjective (attempt e l (snd acc)), True)] else [])"
proof -
  have nk: "o_id l \<notin> set (childIds l)" and dc: "distinct (childIds l)"
    using dist by (simp_all add: ownIds_def)
  have matched: "\<And>r v. \<forall>p\<in>set ((o_id l, v) # childPairs l r).
      register (childPairs l r) ((idMapping (snd acc))(o_id l \<mapsto> v)) (fst p) = Some (snd p)"
  proof -
    fix r v
    have "o_id l \<notin> fst ` set (childPairs l r)" using nk childPairs_keys by fastforce
    then have "register (childPairs l r) ((idMapping (snd acc))(o_id l \<mapsto> v)) (o_id l) = Some v"
      by (simp add: register_other)
    moreover have "\<forall>p\<in>set (childPairs l r).
        register (childPairs l r) ((idMapping (snd acc))(o_id l \<mapsto> v)) (fst p) = Some (snd p)"
      using register_distinct[OF childPairs_distinct[OF dc]] by blast
    ultimately show "\<forall>p\<in>set ((o_id l, v) # childPairs l r).
      register (childPairs l r) ((idMapping (snd acc))(o_id l \<mapsto> v)) (fst p) = Some (snd p)"
      by simp
  qed
  show ?thesis
  proof (cases "remoteMap rs (o_id l)")
    case (Some r)
    then show ?thesis using matched[of "o_id l" r]
      by (simp add: uploadStep_byId target_def localOnly_def)
  next
    case None
    note idNone = this
    show ?thesis
    proof (cases "remoteByName rs (toLowerCase (o_name l))")
      case (Some b)
      then show ?thesis using idNone matched[of "ao_id b" b]
        by (simp add: uploadStep_byName target_def localOnly_def)
    next
      case None
      then have lo: "localOnly rs l" using idNone by (simp add: localOnly_def)
      let ?mn = "fst (mintAll e l (idCount (snd acc)))"
      have "\<not> isl (createObjective e (calls (snd acc)) (attempt e l (snd acc)))"
      proof
        assume "isl (createObjective e (calls (snd acc)) (attempt e l (snd acc)))"
        then obtain err where "createObjective e (calls (snd acc)) (attempt e l (snd acc))
            = Inl err"
          by (cases "createObjective e (calls (snd acc)) (attempt e l (snd acc))") auto
        then have "fst (uploadStep e rs l acc)
            = fst acc @ [uploadFailed ''objective'' (o_name l)]"
          using idNone None by (simp add: uploadStep_new)
        then show False using noerr by simp
      qed
      then obtain c where c: "createObjective e (calls (snd acc)) (attempt e l (snd acc))
          = Inr (Some c)"
        using returns by (cases "createObjective e (calls (snd acc)) (attempt e l (snd acc))")
          (auto, metis option.exhaust)
      have "o_id l \<notin> fst ` set (pillarMappings ?mn @ metricMappings ?mn @ ritualMappings ?mn)"
        using nk unfolding registerAll_keys by simp
      then have "registerAll l ?mn (idMapping (snd acc)) (o_id l) = Some (o_id l)"
        using lo uuid by (simp add: registerAll_def register_other mintAll_objectiveId)
      then show ?thesis using idNone None c lo
        by (simp add: uploadStep_new target_def logCall_def)
    qed
  qed
qed

lemma uploadLoop_ok:
  assumes noerr: "fst (fold (uploadStep e rs) ls (errs, w)) = errs"
    and returns: "\<forall>cs p. createObjective e cs p \<noteq> Inr None"
    and dist: "distinct (concat (map ownIds ls))"
    and uuid: "\<forall>l\<in>set ls. localOnly rs l \<longrightarrow> isValidUUID (o_id l)"
  shows "(\<forall>l\<in>set ls. \<forall>p\<in>set (target rs l).
            idMapping (snd (fold (uploadStep e rs) ls (errs, w))) (fst p) = Some (snd p))
     \<and> (\<forall>k. k \<notin> set (concat (map ownIds ls)) \<longrightarrow>
            idMapping (snd (fold (uploadStep e rs) ls (errs, w))) k = idMapping w k)
     \<and> (\<exists>xs. calls (snd (fold (uploadStep e rs) ls (errs, w))) = calls w @ xs
          \<and> (\<forall>c\<in>set xs. \<exists>l\<in>set ls. \<exists>p. localOnly rs l \<and> c = (CreateObjective p, True)
                \<and> co_id p = o_id l \<and> co_name p = o_name l)
          \<and> (\<forall>l\<in>set ls. localOnly rs l \<longrightarrow>
                (\<exists>p. (CreateObjective p, True) \<in> set xs
                   \<and> co_id p = o_id l \<and> co_name p = o_name l)))"
  using noerr dist uuid
proof (induction ls arbitrary: w)
  case Nil
  show ?case by simp
next
  case (Cons l ls)
  let ?a1 = "uploadStep e rs l (errs, w)"
  let ?fin = "fold (uploadStep e rs) ls ?a1"
  have fin: "fold (uploadStep e rs) (l # ls) (errs, w) = ?fin" by simp
  obtain zs where zs: "fst ?a1 = errs @ zs"
    using uploadStep_errors[of e rs l "(errs, w)"] by auto
  obtain ys where ys: "fst ?fin = fst ?a1 @ ys" using uploadLoop_errors by blast
  have e1: "fst ?a1 = errs" using Cons.prems(1) zs ys by simp
  then have a1: "?a1 = (errs, snd ?a1)" by (metis prod.collapse)
  have dl: "distinct (ownIds l)" and dls: "distinct (concat (map ownIds ls))"
    and disj: "set (ownIds l) \<inter> set (concat (map ownIds ls)) = {}"
    using Cons.prems(2) by auto
  have ul: "localOnly rs l \<longrightarrow> isValidUUID (o_id l)" using Cons.prems(3) by simp
  have step: "\<forall>p\<in>set (target rs l). idMapping (snd ?a1) (fst p) = Some (snd p)"
    "calls (snd ?a1) = calls w
       @ (if localOnly rs l then [(CreateObjective (attempt e l w), True)] else [])"
    using uploadStep_ok[of e rs l "(errs, w)", OF _ returns dl ul] e1 by simp_all
  have noerr': "fst (fold (uploadStep e rs) ls (errs, snd ?a1)) = errs"
    using Cons.prems(1) a1 by simp
  from Cons.IH[OF noerr' dls] Cons.prems(3)
  obtain xs where ih1: "\<forall>l\<in>set ls. \<forall>p\<in>set (target rs l).
            idMapping (snd (fold (uploadStep e rs) ls (errs, snd ?a1))) (fst p) = Some (snd p)"
    and ih2: "\<forall>k. k \<notin> set (concat (map ownIds ls)) \<longrightarrow>
            idMapping (snd (fold (uploadStep e rs) ls (errs, snd ?a1))) k = idMapping (snd ?a1) k"
    and ih3: "calls (snd (fold (uploadStep e rs) ls (errs, snd ?a1))) = calls (snd ?a1) @ xs"
      "\<forall>c\<in>set xs. \<exists>l\<in>set ls. \<exists>p. localOnly rs l \<and> c = (CreateObjective p, True)
                \<and> co_id p = o_id l \<and> co_name p = o_name l"
      "\<forall>l\<in>set ls. localOnly rs l \<longrightarrow>
                (\<exists>p. (CreateObjective p, True) \<in> set xs
                   \<and> co_id p = o_id l \<and> co_name p = o_name l)"
    by auto
  have fin': "?fin = fold (uploadStep e rs) ls (errs, snd ?a1)" using a1 by simp
  have keys: "\<forall>p\<in>set (target rs l). fst p \<in> set (ownIds l)"
    using childPairs_keys[of l]
    by (fastforce simp: target_def ownIds_def split: option.splits)
  have A: "\<forall>l'\<in>set (l # ls). \<forall>p\<in>set (target rs l').
            idMapping (snd ?fin) (fst p) = Some (snd p)"
  proof -
    have "\<forall>p\<in>set (target rs l). idMapping (snd ?fin) (fst p) = Some (snd p)"
    proof
      fix p assume p: "p \<in> set (target rs l)"
      then have "fst p \<notin> set (concat (map ownIds ls))" using keys disj by blast
      then have "idMapping (snd ?fin) (fst p) = idMapping (snd ?a1) (fst p)"
        using ih2 fin' by simp
      then show "idMapping (snd ?fin) (fst p) = Some (snd p)" using step(1) p by simp
    qed
    then show ?thesis using ih1 fin' by simp
  qed
  have B: "\<forall>k. k \<notin> set (concat (map ownIds (l # ls))) \<longrightarrow> idMapping (snd ?fin) k = idMapping w k"
  proof (intro allI impI)
    fix k assume k: "k \<notin> set (concat (map ownIds (l # ls)))"
    then have "k \<notin> set (o_id l # childIds l)" "k \<notin> set (concat (map ownIds ls))"
      by (simp_all add: ownIds_def)
    then show "idMapping (snd ?fin) k = idMapping w k"
      using ih2 fin' uploadStep_other[of k l e rs "(errs, w)"] by simp
  qed
  let ?x = "if localOnly rs l then [(CreateObjective (attempt e l w), True)] else []"
  have C: "calls (snd ?fin) = calls w @ (?x @ xs)"
    using ih3(1) step(2) fin' by simp
  have D: "\<forall>c\<in>set (?x @ xs). \<exists>l'\<in>set (l # ls). \<exists>p. localOnly rs l'
        \<and> c = (CreateObjective p, True) \<and> co_id p = o_id l' \<and> co_name p = o_name l'"
    using ih3(2) ul by (auto simp: attempt_id)
  have E: "\<forall>l'\<in>set (l # ls). localOnly rs l' \<longrightarrow>
                (\<exists>p. (CreateObjective p, True) \<in> set (?x @ xs)
                   \<and> co_id p = o_id l' \<and> co_name p = o_name l')"
    using ih3(3) ul by (auto simp: attempt_id intro: exI[where x = "attempt e l w"])
  show ?case
    unfolding fin using A B C D E by blast
qed

lemma downloadLoop_ok:
  assumes ech: "echoes e"
  shows "fst (downloadLoop e lm rs w) = Inr () \<Longrightarrow>
     (\<forall>r\<in>set rs. lm (ao_id r) = None \<longrightarrow>
         idMapping (snd (downloadLoop e lm rs w)) (ao_id r) = Some (ao_id r)
       \<and> ao_id r \<in> o_id ` set (objectives (snd (downloadLoop e lm rs w))))
     \<and> (\<forall>k. idMapping (snd (downloadLoop e lm rs w)) k = idMapping w k
           \<or> (idMapping (snd (downloadLoop e lm rs w)) k = Some k
               \<and> (\<exists>r\<in>set rs. lm (ao_id r) = None \<and> ao_id r = k)))
     \<and> set (objectives w) \<subseteq> set (objectives (snd (downloadLoop e lm rs w)))
     \<and> (\<forall>c\<in>set (objectives (snd (downloadLoop e lm rs w))).
           c \<in> set (objectives w) \<or> (\<exists>r\<in>set rs. lm (ao_id r) = None \<and> o_id c = ao_id r))"
proof (induction rs arbitrary: w)
  case Nil
  show ?case by simp
next
  case (Cons r rs)
  show ?case
  proof (cases "lm (ao_id r) \<noteq> None")
    case True
    then have eq: "downloadLoop e lm (r # rs) w = downloadLoop e lm rs w" by simp
    have "fst (downloadLoop e lm rs w) = Inr ()" using Cons.prems eq by simp
    from Cons.IH[OF this] True show ?thesis unfolding eq by auto
  next
    case False
    then have lmN: "lm (ao_id r) = None" by simp
    show ?thesis
    proof (cases "getObjective e (calls w) (ao_id r)")
      case (Inl err)
      then have "fst (downloadLoop e lm (r # rs) w) = Inl err" using lmN by simp
      then show ?thesis using Cons.prems by simp
    next
      case (Inr full)
      have fid: "ao_id full = ao_id r" using ech Inr by (auto simp: echoes_def)
      let ?w2 = "(addObjective (materialize full) (logCall (GetObjective (ao_id r)) True w))
                   \<lparr>idMapping := (idMapping w)(ao_id r \<mapsto> ao_id r)\<rparr>"
      let ?res = "downloadLoop e lm rs ?w2"
      have eq: "downloadLoop e lm (r # rs) w = ?res"
        using lmN Inr fid by (simp add: Let_def addObjective_def logCall_def)
      have ok: "fst ?res = Inr ()" using Cons.prems eq by simp
      note ih = Cons.IH[OF ok]
      have w2: "idMapping ?w2 = (idMapping w)(ao_id r \<mapsto> ao_id r)"
        "objectives ?w2 = objectives w @ [materialize full]"
        by (simp_all add: addObjective_def logCall_def)
      have m: "\<forall>k. idMapping (snd ?res) k = idMapping ?w2 k
           \<or> (idMapping (snd ?res) k = Some k
               \<and> (\<exists>r\<in>set rs. lm (ao_id r) = None \<and> ao_id r = k))"
        using ih by blast
      have sub: "set (objectives ?w2) \<subseteq> set (objectives (snd ?res))" using ih by blast
      have cs: "\<forall>c\<in>set (objectives (snd ?res)).
           c \<in> set (objectives ?w2) \<or> (\<exists>r\<in>set rs. lm (ao_id r) = None \<and> o_id c = ao_id r)"
        using ih by blast
      have one: "\<forall>r'\<in>set rs. lm (ao_id r') = None \<longrightarrow>
         idMapping (snd ?res) (ao_id r') = Some (ao_id r')
       \<and> ao_id r' \<in> o_id ` set (objectives (snd ?res))"
        using ih by blast
      have hd1: "idMapping (snd ?res) (ao_id r) = Some (ao_id r)"
        using m[rule_format, of "ao_id r"] w2(1) by auto
      have "materialize full \<in> set (objectives (snd ?res))" using sub w2(2) by auto
      then have hd2: "ao_id r \<in> o_id ` set (objectives (snd ?res))"
        using fid by (metis image_eqI materialize_id)
      show ?thesis
        unfolding eq
      proof (intro conjI)
        show "\<forall>r'\<in>set (r # rs). lm (ao_id r') = None \<longrightarrow>
            idMapping (snd ?res) (ao_id r') = Some (ao_id r')
          \<and> ao_id r' \<in> o_id ` set (objectives (snd ?res))"
          using one hd1 hd2 by simp
        show "\<forall>k. idMapping (snd ?res) k = idMapping w k
           \<or> (idMapping (snd ?res) k = Some k
               \<and> (\<exists>r'\<in>set (r # rs). lm (ao_id r') = None \<and> ao_id r' = k))"
        proof
          fix k
          show "idMapping (snd ?res) k = idMapping w k
           \<or> (idMapping (snd ?res) k = Some k
               \<and> (\<exists>r'\<in>set (r # rs). lm (ao_id r') = None \<and> ao_id r' = k))"
          proof (cases "k = ao_id r")
            case True
            then show ?thesis using hd1 lmN by auto
          next
            case False
            then have "idMapping ?w2 k = idMapping w k" using w2(1) by simp
            then show ?thesis using m[rule_format, of k] by auto
          qed
        qed
        show "set (objectives w) \<subseteq> set (objectives (snd ?res))" using sub w2(2) by auto
        show "\<forall>c\<in>set (objectives (snd ?res)).
           c \<in> set (objectives w)
           \<or> (\<exists>r'\<in>set (r # rs). lm (ao_id r') = None \<and> o_id c = ao_id r')"
        proof
          fix c assume "c \<in> set (objectives (snd ?res))"
          then consider "c \<in> set (objectives w)" | "c = materialize full"
            | "\<exists>r\<in>set rs. lm (ao_id r) = None \<and> o_id c = ao_id r"
            using cs w2(2) by auto
          then show "c \<in> set (objectives w)
           \<or> (\<exists>r'\<in>set (r # rs). lm (ao_id r') = None \<and> o_id c = ao_id r')"
            using lmN fid by cases auto
        qed
      qed
    qed
  qed
qed

lemma target_matched:
  "\<not> localOnly rs l \<Longrightarrow>
   uploadStep e rs l acc
     = (fst acc, (snd acc)\<lparr>idMapping := register (target rs l) (idMapping (snd acc))\<rparr>)"
  by (auto simp: localOnly_def target_def uploadStep_byId uploadStep_byName
      split: option.splits)

lemma uploadLoop_all_matched:
  assumes "\<forall>l\<in>set ls. \<not> localOnly rs l"
  shows "fold (uploadStep e rs) ls (errs, w)
     = (errs, w\<lparr>idMapping := register (concat (map (target rs) ls)) (idMapping w)\<rparr>)"
  using assms
proof (induction ls arbitrary: w)
  case Nil
  show ?case by simp
next
  case (Cons l ls)
  have "fold (uploadStep e rs) (l # ls) (errs, w)
      = fold (uploadStep e rs) ls
          (errs, w\<lparr>idMapping := register (target rs l) (idMapping w)\<rparr>)"
    using Cons.prems by (simp add: target_matched)
  also have "\<dots> = (errs, w\<lparr>idMapping := register (concat (map (target rs) ls))
        (register (target rs l) (idMapping w))\<rparr>)"
    using Cons.IH Cons.prems by simp
  finally show ?case by (simp add: register_append)
qed

lemma fold_index_eq_find:
  "fold (\<lambda>x m. m(key x \<mapsto> x)) xs Map.empty k = find (\<lambda>x. key x = k) (rev xs)"
  by (simp add: fold_index_find split: option.splits)

lemma find_Some_set: "find P xs = Some x \<Longrightarrow> x \<in> set xs \<and> P x"
  by (induction xs) (auto split: if_splits)

lemma fold_index_append:
  "fold (\<lambda>x m. m(key x \<mapsto> x)) (xs @ ys) Map.empty k
     = (case fold (\<lambda>x m. m(key x \<mapsto> x)) ys Map.empty k of
          None \<Rightarrow> fold (\<lambda>x m. m(key x \<mapsto> x)) xs Map.empty k
        | Some v \<Rightarrow> Some v)"
  by (simp only: fold_index_eq_find rev_append find_append_opt)

lemma fold_index_Some:
  "fold (\<lambda>x m. m(key x \<mapsto> x)) xs Map.empty k = Some v \<Longrightarrow> v \<in> set xs \<and> key v = k"
  using find_Some_set[of "\<lambda>x. key x = k" "rev xs" v] by (simp add: fold_index_eq_find)

lemma remoteMap_append:
  "remoteMap (rs @ cr) k
     = (case remoteMap cr k of None \<Rightarrow> remoteMap rs k | Some v \<Rightarrow> Some v)"
  unfolding remoteMap_def by (rule fold_index_append)

lemma remoteByName_append:
  "remoteByName (rs @ cr) k
     = (case remoteByName cr k of None \<Rightarrow> remoteByName rs k | Some v \<Rightarrow> Some v)"
  unfolding remoteByName_def by (rule fold_index_append)

lemma remoteMap_Some: "remoteMap rs k = Some r \<Longrightarrow> r \<in> set rs \<and> ao_id r = k"
  unfolding remoteMap_def by (rule fold_index_Some)

lemma remoteByName_Some:
  "remoteByName rs k = Some r \<Longrightarrow> r \<in> set rs \<and> toLowerCase (ao_name r) = k"
  unfolding remoteByName_def
  by (rule fold_index_Some[where key = "\<lambda>ob. toLowerCase (ao_name ob)"])

lemma remoteByName_None:
  "remoteByName rs k = None \<longleftrightarrow> k \<notin> (\<lambda>ob. toLowerCase (ao_name ob)) ` set rs"
  unfolding remoteByName_def by (rule fold_index_None)

lemma taskUploadStep_errors:
  "fst (taskUploadStep e rm t acc) = fst acc
   \<or> fst (taskUploadStep e rm t acc) = fst acc @ [uploadFailed ''task'' (t_title t)]"
  by (auto simp: taskUploadStep_def Let_def split: option.splits sum.splits prod.splits)

lemma taskUploadLoop_errors: "\<exists>ys. fst (fold (taskUploadStep e rm) ts acc) = fst acc @ ys"
proof (rule fold_rel[where R = "\<lambda>a b. \<exists>ys. fst b = fst a @ ys"])
  show "\<And>a :: string list \<times> store. \<exists>ys. fst a = fst a @ ys" by simp
  show "\<And>a b c :: string list \<times> store.
      \<exists>ys. fst b = fst a @ ys \<Longrightarrow> \<exists>ys. fst c = fst b @ ys \<Longrightarrow> \<exists>ys. fst c = fst a @ ys"
    by auto
  show "\<And>x a. x \<in> set ts \<Longrightarrow> \<exists>ys. fst (taskUploadStep e rm x a) = fst a @ ys"
    using taskUploadStep_errors by (metis append_Nil2)
qed

text \<open>A task upload iteration that records no error.\<close>

lemma taskUploadStep_ok:
  assumes noerr: "fst (taskUploadStep e rm t acc) = fst acc"
    and uuid: "rm (t_id t) = None \<longrightarrow> isValidUUID (t_id t)"
  shows "idMapping (snd (taskUploadStep e rm t acc)) = idMapping (snd acc)
     \<and> (\<exists>xs. calls (snd (taskUploadStep e rm t acc)) = calls (snd acc) @ xs
          \<and> (rm (t_id t) = None \<longrightarrow>
                idMapping (snd acc) (t_objectiveId t) = None
              \<or> idMapping (snd acc) (t_objectiveId t) = Some []
              \<or> (\<exists>p. (CreateTask p, True) \<in> set xs \<and> ct_id p = t_id t)))"
proof (cases "rm (t_id t) \<noteq> None \<or> idMapping (snd acc) (t_objectiveId t) = None
     \<or> idMapping (snd acc) (t_objectiveId t) = Some []")
  case True
  then have "taskUploadStep e rm t acc = acc" by (rule taskUploadStep_skip)
  then show ?thesis using True by auto
next
  case False
  then obtain sid where sid: "rm (t_id t) = None" "idMapping (snd acc) (t_objectiveId t) = Some sid"
      "sid \<noteq> []"
    by auto
  then have u: "isValidUUID (t_id t)" using uuid by simp
  let ?p = "\<lparr> ct_id = t_id t, ct_objectiveId = sid,
        ct_pillarId = resolveRef (idMapping (snd acc)) (t_pillarId t),
        ct_ritualId = resolveRef (idMapping (snd acc)) (t_ritualId t),
        ct_title = t_title t, ct_description = t_description t,
        ct_whyItMatters = t_whyItMatters t, ct_scheduledAt = t_scheduledAt t,
        ct_durationMinutes = t_durationMinutes t \<rparr>"
  have "\<not> isl (createTask e (calls (snd acc)) ?p)"
  proof
    assume "isl (createTask e (calls (snd acc)) ?p)"
    then obtain err where "createTask e (calls (snd acc)) ?p = Inl err"
      by (cases "createTask e (calls (snd acc)) ?p") auto
    then have "fst (taskUploadStep e rm t acc) = fst acc @ [uploadFailed ''task'' (t_title t)]"
      using sid u by (simp add: taskUploadStep_def Let_def mintId_def)
    then show False using noerr by simp
  qed
  then obtain v where "createTask e (calls (snd acc)) ?p = Inr v"
    by (cases "createTask e (calls (snd acc)) ?p") auto
  then have "taskUploadStep e rm t acc
      = (fst acc, logCall (CreateTask ?p) True ((snd acc)\<lparr>idCount := idCount (snd acc)\<rparr>))"
    using sid u by (simp add: taskUploadStep_def Let_def mintId_def)
  then show ?thesis
    by (auto simp: logCall_def intro!: exI[where x = "[(CreateTask ?p, True)]"])
qed

lemma taskUploadLoop_ok:
  assumes noerr: "fst (fold (taskUploadStep e rm) ts (errs, w)) = errs"
    and uuid: "\<forall>t\<in>set ts. rm (t_id t) = None \<longrightarrow> isValidUUID (t_id t)"
  shows "\<exists>xs. calls (snd (fold (taskUploadStep e rm) ts (errs, w))) = calls w @ xs
          \<and> (\<forall>t\<in>set ts. rm (t_id t) = None \<longrightarrow>
                idMapping w (t_objectiveId t) = None
              \<or> idMapping w (t_objectiveId t) = Some []
              \<or> (\<exists>p. (CreateTask p, True) \<in> set xs \<and> ct_id p = t_id t))"
  using noerr uuid
proof (induction ts arbitrary: w)
  case Nil
  show ?case by simp
next
  case (Cons t ts)
  let ?a1 = "taskUploadStep e rm t (errs, w)"
  let ?fin = "fold (taskUploadStep e rm) ts ?a1"
  obtain zs where zs: "fst ?a1 = errs @ zs"
    using taskUploadStep_errors[of e rm t "(errs, w)"] by auto
  obtain ys where ys: "fst ?fin = fst ?a1 @ ys" using taskUploadLoop_errors by blast
  have e1: "fst ?a1 = errs" using Cons.prems(1) zs ys by simp
  then have a1: "?a1 = (errs, snd ?a1)" by (metis prod.collapse)
  have ut: "rm (t_id t) = None \<longrightarrow> isValidUUID (t_id t)" using Cons.prems(2) by simp
  from taskUploadStep_ok[of e rm t "(errs, w)", OF _ ut] e1
  obtain xs1 where s1: "idMapping (snd ?a1) = idMapping w"
      "calls (snd ?a1) = calls w @ xs1"
      "rm (t_id t) = None \<longrightarrow>
                idMapping w (t_objectiveId t) = None
              \<or> idMapping w (t_objectiveId t) = Some []
              \<or> (\<exists>p. (CreateTask p, True) \<in> set xs1 \<and> ct_id p = t_id t)"
    by auto
  have noerr': "fst (fold (taskUploadStep e rm) ts (errs, snd ?a1)) = errs"
    using Cons.prems(1) a1 by simp
  from Cons.IH[OF noerr'] Cons.prems(2)
  obtain xs2 where s2: "calls (snd (fold (taskUploadStep e rm) ts (errs, snd ?a1)))
        = calls (snd ?a1) @ xs2"
      "\<forall>t\<in>set ts. rm (t_id t) = None \<longrightarrow>
                idMapping (snd ?a1) (t_objectiveId t) = None
              \<or> idMapping (snd ?a1) (t_objectiveId t) = Some []
              \<or> (\<exists>p. (CreateTask p, True) \<in> set xs2 \<and> ct_id p = t_id t)"
    by auto
  have fin': "fold (taskUploadStep e rm) (t # ts) (errs, w)
      = fold (taskUploadStep e rm) ts (errs, snd ?a1)"
    using a1 by simp
  show ?case
    unfolding fin'
    apply (rule exI[where x = "xs1 @ xs2"])
    using s1 s2 by auto
qed

lemma taskDownload_members:
  "\<forall>t\<in>set (tasks (fold (taskDownloadStep lm) rs w)).
      t \<in> set (tasks w) \<or> t_id t \<in> t_id ` set rs"
proof (rule fold_inv[where P = "\<lambda>b. \<forall>t\<in>set (tasks b). t \<in> set (tasks w)
      \<or> t_id t \<in> t_id ` set rs"])
  show "\<forall>t\<in>set (tasks w). t \<in> set (tasks w) \<or> t_id t \<in> t_id ` set rs" by simp
next
  fix x and a :: store
  assume "x \<in> set rs"
    and "\<forall>t\<in>set (tasks a). t \<in> set (tasks w) \<or> t_id t \<in> t_id ` set rs"
  then show "\<forall>t\<in>set (tasks (taskDownloadStep lm x a)).
      t \<in> set (tasks w) \<or> t_id t \<in> t_id ` set rs"
    by (auto simp: taskDownloadStep_def addTasks_def)
qed

lemma syncObjectives_ok:
  assumes "fst (syncObjectives e w) = Inr []"
  shows "\<exists>rs. getObjectives e (calls w) = Inr rs
     \<and> fst (fold (uploadStep e rs) (objectives w) ([], logCall GetObjectives True w)) = []
     \<and> fst (downloadLoop e (localMap (objectives w)) rs
           (snd (fold (uploadStep e rs) (objectives w) ([], logCall GetObjectives True w))))
         = Inr ()
     \<and> snd (syncObjectives e w)
         = snd (downloadLoop e (localMap (objectives w)) rs
             (snd (fold (uploadStep e rs) (objectives w) ([], logCall GetObjectives True w))))"
  using assms
  by (cases "getObjectives e (calls w)")
    (auto simp: syncObjectives_def Let_def split: prod.splits sum.splits)

lemma syncTasks_ok:
  assumes "fst (syncTasks e w) = Inr []"
  shows "\<exists>ts. getTasks e (calls w) (today e) = Inr ts
     \<and> fst (fold (taskUploadStep e (taskMap ts)) (tasks w)
          ([], logCall (GetTasks (today e)) True w)) = []
     \<and> snd (syncTasks e w)
         = fold (taskDownloadStep (taskMap (tasks w))) ts
             (fold (statusStep e (taskMap ts)) (tasks w)
                (snd (fold (taskUploadStep e (taskMap ts)) (tasks w)
                   ([], logCall (GetTasks (today e)) True w))))"
  using assms
  by (cases "getTasks e (calls w) (today e)") (auto simp: syncTasks_def Let_def)

lemma syncAll_success:
  assumes "success (fst (syncAll e s))"
  shows "isAuthenticated s
     \<and> fst (syncObjectives e (data s)) = Inr []
     \<and> fst (syncTasks e (snd (syncObjectives e (data s)))) = Inr []
     \<and> data (snd (syncAll e s)) = snd (syncTasks e (snd (syncObjectives e (data s))))"
  using assms
  by (auto simp: syncAll_def Let_def syncFailed_def notifyListeners_def
      split: if_splits prod.splits sum.splits)

lemma syncAll_data:
  assumes "isAuthenticated s"
    and "fst (syncObjectives e (data s)) = Inr oe"
    and "fst (syncTasks e (snd (syncObjectives e (data s)))) = Inr te"
  shows "data (snd (syncAll e s)) = snd (syncTasks e (snd (syncObjectives e (data s))))"
  using assms
  by (auto simp: syncAll_def Let_def syncFailed_def notifyListeners_def
      split: if_splits prod.splits sum.splits)

lemma syncAll_isAuthenticated: "isAuthenticated (snd (syncAll e s)) = isAuthenticated s"
  by (auto simp: syncAll_def Let_def syncFailed_def notifyListeners_def
      split: prod.splits sum.splits)

lemma distinct_ownIds:
  assumes "distinct (concat (map ownIds ls))" "l \<in> set ls" "l' \<in> set ls" "o_id l = o_id l'"
  shows "l = l'"
proof -
  have "distinct (map o_id ls)"
    using assms(1)
  proof (induction ls)
    case Nil
    show ?case by simp
  next
    case (Cons a ls)
    have "o_id a \<notin> o_id ` set ls"
    proof
      assume "o_id a \<in> o_id ` set ls"
      then obtain b where b: "b \<in> set ls" "o_id b = o_id a" by auto
      then have "o_id a \<in> set (ownIds b)" by (simp add: ownIds_def)
      then have "o_id a \<in> set (concat (map ownIds ls))" using b(1) by auto
      then show False using Cons.prems by (auto simp: ownIds_def)
    qed
    then show ?case using Cons by simp
  qed
  then have "inj_on o_id (set ls)" by (simp add: distinct_map)
  then show ?thesis using assms(2,3,4) by (auto dest: inj_onD)
qed

text \<open>The objective phase of a pass in which no call threw.\<close>

lemma run1_objectives:
  assumes ok: "fst (syncObjectives e w) = Inr []"
    and list1: "getObjectives e (calls w) = Inr rs"
    and returns: "\<forall>cs p. createObjective e cs p \<noteq> Inr None"
    and ech: "echoes e"
    and uuid: "\<forall>l\<in>set (objectives w). localOnly rs l \<longrightarrow> isValidUUID (o_id l)"
    and dist: "distinct (concat (map ownIds (objectives w)))"
    and apart: "\<forall>l\<in>set (objectives w). \<forall>c\<in>set (childIds l). c \<notin> ao_id ` set rs"
  shows "(\<forall>l\<in>set (objectives w). \<forall>p\<in>set (target rs l).
            idMapping (snd (syncObjectives e w)) (fst p) = Some (snd p))
     \<and> (\<forall>r\<in>set rs. localMap (objectives w) (ao_id r) = None \<longrightarrow>
            idMapping (snd (syncObjectives e w)) (ao_id r) = Some (ao_id r)
          \<and> ao_id r \<in> o_id ` set (objectives (snd (syncObjectives e w))))
     \<and> set (objectives w) \<subseteq> set (objectives (snd (syncObjectives e w)))
     \<and> (\<forall>c\<in>set (objectives (snd (syncObjectives e w))).
            c \<in> set (objectives w)
          \<or> (\<exists>r\<in>set rs. localMap (objectives w) (ao_id r) = None \<and> o_id c = ao_id r))
     \<and> (\<exists>xs. calls (snd (syncObjectives e w)) = calls w @ xs
          \<and> (\<forall>p b. (CreateObjective p, b) \<in> set xs \<longrightarrow>
                (\<exists>l\<in>set (objectives w). localOnly rs l \<and> co_id p = o_id l
                   \<and> co_name p = o_name l))
          \<and> (\<forall>l\<in>set (objectives w). localOnly rs l \<longrightarrow>
                (\<exists>p. (CreateObjective p, True) \<in> set xs
                   \<and> co_id p = o_id l \<and> co_name p = o_name l))
          \<and> (\<forall>c\<in>set xs. \<forall>p. fst c \<noteq> CreateTask p))
     \<and> tasks (snd (syncObjectives e w)) = tasks w"
proof -
  let ?L = "objectives w"
  let ?w0 = "logCall GetObjectives True w"
  let ?up = "fold (uploadStep e rs) ?L ([], ?w0)"
  let ?dn = "downloadLoop e (localMap ?L) rs (snd ?up)"
  from syncObjectives_ok[OF ok] list1
  have u0: "fst ?up = []" and d0: "fst ?dn = Inr ()"
    and res: "snd (syncObjectives e w) = snd ?dn"
    by auto
  from uploadLoop_ok[of e rs ?L "[]" ?w0, OF u0 returns dist uuid]
  obtain xs where up1: "\<forall>l\<in>set ?L. \<forall>p\<in>set (target rs l).
            idMapping (snd ?up) (fst p) = Some (snd p)"
    and up3: "calls (snd ?up) = calls ?w0 @ xs"
      "\<forall>c\<in>set xs. \<exists>l\<in>set ?L. \<exists>p. localOnly rs l \<and> c = (CreateObjective p, True)
                \<and> co_id p = o_id l \<and> co_name p = o_name l"
      "\<forall>l\<in>set ?L. localOnly rs l \<longrightarrow>
                (\<exists>p. (CreateObjective p, True) \<in> set xs
                   \<and> co_id p = o_id l \<and> co_name p = o_name l)"
    by blast
  have upk: "objectives (snd ?up) = ?L" "tasks (snd ?up) = tasks w"
    using upRel_loop[of rs "([], ?w0)" e ?L] by (simp_all add: upRel_def logCall_def)
  from downloadLoop_ok[OF ech d0]
  have dn1: "\<forall>r\<in>set rs. localMap ?L (ao_id r) = None \<longrightarrow>
         idMapping (snd ?dn) (ao_id r) = Some (ao_id r)
       \<and> ao_id r \<in> o_id ` set (objectives (snd ?dn))"
    and dn2: "\<forall>k. idMapping (snd ?dn) k = idMapping (snd ?up) k
           \<or> (idMapping (snd ?dn) k = Some k
               \<and> (\<exists>r\<in>set rs. localMap ?L (ao_id r) = None \<and> ao_id r = k))"
    and dn3: "set (objectives (snd ?up)) \<subseteq> set (objectives (snd ?dn))"
    and dn4: "\<forall>c\<in>set (objectives (snd ?dn)).
           c \<in> set (objectives (snd ?up))
           \<or> (\<exists>r\<in>set rs. localMap ?L (ao_id r) = None \<and> o_id c = ao_id r)"
    by blast+
  from dnRel_loop[of "snd ?up" e "localMap ?L" rs]
  obtain ys where dc: "calls (snd ?dn) = calls (snd ?up) @ ys"
      "\<forall>c\<in>set ys. \<exists>i. fst c = GetObjective i"
    and dt: "tasks (snd ?dn) = tasks (snd ?up)"
    unfolding dnRel_def by blast
  have keys: "\<And>l p. p \<in> set (target rs l) \<Longrightarrow> fst p \<in> set (ownIds l)"
    using childPairs_keys by (fastforce simp: target_def ownIds_def split: option.splits)
  have A: "\<forall>l\<in>set ?L. \<forall>p\<in>set (target rs l). idMapping (snd ?dn) (fst p) = Some (snd p)"
  proof (intro ballI)
    fix l p assume l: "l \<in> set ?L" and p: "p \<in> set (target rs l)"
    have "\<not> (\<exists>r\<in>set rs. localMap ?L (ao_id r) = None \<and> ao_id r = fst p)"
    proof
      assume "\<exists>r\<in>set rs. localMap ?L (ao_id r) = None \<and> ao_id r = fst p"
      then obtain r where r: "r \<in> set rs" "localMap ?L (fst p) = None" "ao_id r = fst p"
        by auto
      from keys[OF p] consider "fst p = o_id l" | "fst p \<in> set (childIds l)"
        by (auto simp: ownIds_def)
      then show False
      proof cases
        case 1
        then show False using r(2) l by (simp add: localMap_None)
      next
        case 2
        then show False using apart l r(1,3) by force
      qed
    qed
    then have "idMapping (snd ?dn) (fst p) = idMapping (snd ?up) (fst p)"
      using dn2 by blast
    then show "idMapping (snd ?dn) (fst p) = Some (snd p)" using up1 l p by simp
  qed
  have C: "calls (snd ?dn) = calls w @ ((GetObjectives, True) # xs @ ys)"
    using dc(1) up3(1) by (simp add: logCall_def)
  have D: "\<forall>p b. (CreateObjective p, b) \<in> set ((GetObjectives, True) # xs @ ys) \<longrightarrow>
                (\<exists>l\<in>set ?L. localOnly rs l \<and> co_id p = o_id l \<and> co_name p = o_name l)"
    using up3(2) dc(2) by fastforce
  have E: "\<forall>l\<in>set ?L. localOnly rs l \<longrightarrow>
                (\<exists>p. (CreateObjective p, True) \<in> set ((GetObjectives, True) # xs @ ys)
                   \<and> co_id p = o_id l \<and> co_name p = o_name l)"
    using up3(3) by fastforce
  have F: "\<forall>c\<in>set ((GetObjectives, True) # xs @ ys). \<forall>p. fst c \<noteq> CreateTask p"
    using up3(2) dc(2) by fastforce
  show ?thesis
    unfolding res
    apply (intro conjI)
    subgoal by (rule A)
    subgoal by (rule dn1)
    subgoal using dn3 upk(1) by simp
    subgoal using dn4 upk(1) by simp
    subgoal using C D E F by blast
    subgoal using dt upk(2) by simp
    done
qed

text \<open>The task phase of a pass in which no call threw.\<close>

lemma run1_tasks:
  assumes ok: "fst (syncTasks e w) = Inr []"
    and tl: "getTasks e (calls w) (today e) = Inr ts"
    and uuid: "\<forall>t\<in>set (tasks w). taskMap ts (t_id t) = None \<longrightarrow> isValidUUID (t_id t)"
  shows "idMapping (snd (syncTasks e w)) = idMapping w
     \<and> objectives (snd (syncTasks e w)) = objectives w
     \<and> (\<exists>xs. calls (snd (syncTasks e w)) = calls w @ xs
          \<and> (\<forall>c\<in>set xs. \<forall>p. fst c \<noteq> CreateObjective p)
          \<and> (\<forall>t\<in>set (tasks (snd (syncTasks e w))).
                t_id t \<in> t_id ` set ts
              \<or> idMapping w (t_objectiveId t) = None
              \<or> idMapping w (t_objectiveId t) = Some []
              \<or> (\<exists>p. (CreateTask p, True) \<in> set xs \<and> ct_id p = t_id t)))"
proof -
  let ?rm = "taskMap ts"
  let ?w0 = "logCall (GetTasks (today e)) True w"
  let ?up = "fold (taskUploadStep e ?rm) (tasks w) ([], ?w0)"
  let ?w2 = "fold (statusStep e ?rm) (tasks w) (snd ?up)"
  let ?w3 = "fold (taskDownloadStep (taskMap (tasks w))) ts ?w2"
  from syncTasks_ok[OF ok] tl
  have u0: "fst ?up = []" and res: "snd (syncTasks e w) = ?w3" by auto
  have w0: "calls ?w0 = calls w @ [(GetTasks (today e), True)]" "idMapping ?w0 = idMapping w"
    "tasks ?w0 = tasks w"
    by (simp_all add: logCall_def)
  from taskUploadLoop_ok[of e ?rm "tasks w" "[]" ?w0, OF u0 uuid] w0(2)
  obtain xs where up: "calls (snd ?up) = calls ?w0 @ xs"
      "\<forall>t\<in>set (tasks w). ?rm (t_id t) = None \<longrightarrow>
                idMapping w (t_objectiveId t) = None
              \<or> idMapping w (t_objectiveId t) = Some []
              \<or> (\<exists>p. (CreateTask p, True) \<in> set xs \<and> ct_id p = t_id t)"
    by auto
  have upc: "\<forall>c\<in>set xs. \<exists>p. fst c = CreateTask p" and upt: "tasks (snd ?up) = tasks w"
    using tuRel_loop[of "([], ?w0)" e ?rm "tasks w"] up(1) w0(3) by (auto simp: tuRel_def)
  from tsRel_loop[of ?rm "tasks w" "snd ?up" e]
  obtain ys where st: "calls ?w2 = calls (snd ?up) @ ys"
      "\<forall>c\<in>set ys. isUpdate (fst c)"
    and stt: "tasks ?w2 = tasks (snd ?up)"
    unfolding tsRel_def by fastforce
  have dc: "calls ?w3 = calls ?w2" by (rule taskDownload_calls)
  have mem: "\<forall>t\<in>set (tasks ?w3). t \<in> set (tasks w) \<or> t_id t \<in> t_id ` set ts"
    using taskDownload_members[of "taskMap (tasks w)" ts ?w2] stt upt by simp
  have sm: "idMapping (snd (syncTasks e w)) = idMapping w"
    "objectives (snd (syncTasks e w)) = objectives w"
    using syncTasks_summary[of e w] by blast+
  have C: "calls ?w3 = calls w @ ((GetTasks (today e), True) # xs @ ys)"
    using dc st(1) up(1) w0(1) by simp
  have D: "\<forall>c\<in>set ((GetTasks (today e), True) # xs @ ys). \<forall>p. fst c \<noteq> CreateObjective p"
    using upc st(2) by fastforce
  have E: "\<forall>t\<in>set (tasks ?w3).
                t_id t \<in> t_id ` set ts
              \<or> idMapping w (t_objectiveId t) = None
              \<or> idMapping w (t_objectiveId t) = Some []
              \<or> (\<exists>p. (CreateTask p, True) \<in> set ((GetTasks (today e), True) # xs @ ys)
                    \<and> ct_id p = t_id t)"
  proof
    fix t assume "t \<in> set (tasks ?w3)"
    then consider "t_id t \<in> t_id ` set ts" | "t \<in> set (tasks w)" "t_id t \<notin> t_id ` set ts"
      using mem by blast
    then show "t_id t \<in> t_id ` set ts
              \<or> idMapping w (t_objectiveId t) = None
              \<or> idMapping w (t_objectiveId t) = Some []
              \<or> (\<exists>p. (CreateTask p, True) \<in> set ((GetTasks (today e), True) # xs @ ys)
                    \<and> ct_id p = t_id t)"
    proof cases
      case 1
      then show ?thesis by simp
    next
      case 2
      then have "?rm (t_id t) = None" by (simp add: taskMap_None)
      then show ?thesis using up(2) 2(1) by fastforce
    qed
  qed
  show ?thesis
    using sm C D E unfolding res by blast
qed

text \<open>The two phases of a pass that has nothing to create and nothing to register.\<close>

lemma run2_objectives:
  assumes list: "getObjectives e (calls w) = Inr rs"
    and matched: "\<forall>l\<in>set (objectives w). \<not> localOnly rs l"
    and present: "\<forall>l\<in>set (objectives w). \<forall>p\<in>set (target rs l).
        idMapping w (fst p) = Some (snd p)"
    and nodl: "\<forall>r\<in>set rs. localMap (objectives w) (ao_id r) \<noteq> None"
  shows "syncObjectives e w = (Inr [], logCall GetObjectives True w)"
proof -
  let ?w0 = "logCall GetObjectives True w"
  have "\<forall>p\<in>set (concat (map (target rs) (objectives w))). idMapping ?w0 (fst p) = Some (snd p)"
    using present by (auto simp: logCall_def)
  then have "register (concat (map (target rs) (objectives w))) (idMapping ?w0) = idMapping ?w0"
    by (rule register_present)
  then have "fold (uploadStep e rs) (objectives w) ([], ?w0) = ([], ?w0)"
    by (simp add: uploadLoop_all_matched[OF matched])
  then show ?thesis
    using list by (simp add: syncObjectives_def Let_def downloadLoop_aligned[OF nodl])
qed

lemma taskUploadLoop_skip:
  assumes "\<forall>t\<in>set ts. rm (t_id t) \<noteq> None \<or> idMapping (snd acc) (t_objectiveId t) = None
      \<or> idMapping (snd acc) (t_objectiveId t) = Some []"
  shows "fold (taskUploadStep e rm) ts acc = acc"
  using assms by (induction ts) (simp_all add: taskUploadStep_skip)

lemma run2_tasks:
  assumes tl: "getTasks e (calls w) (today e) = Inr ts"
    and skip: "\<forall>t\<in>set (tasks w). taskMap ts (t_id t) \<noteq> None
        \<or> idMapping w (t_objectiveId t) = None \<or> idMapping w (t_objectiveId t) = Some []"
  shows "fst (syncTasks e w) = Inr []
     \<and> idMapping (snd (syncTasks e w)) = idMapping w
     \<and> (\<exists>xs. calls (snd (syncTasks e w)) = calls w @ xs \<and> (\<forall>c\<in>set xs. \<not> isCreate (fst c)))"
proof -
  let ?rm = "taskMap ts"
  let ?w0 = "logCall (GetTasks (today e)) True w"
  let ?w2 = "fold (statusStep e ?rm) (tasks w) ?w0"
  let ?w3 = "fold (taskDownloadStep (taskMap (tasks w))) ts ?w2"
  have "\<forall>t\<in>set (tasks w). ?rm (t_id t) \<noteq> None
        \<or> idMapping (snd ([] :: string list, ?w0)) (t_objectiveId t) = None
        \<or> idMapping (snd ([] :: string list, ?w0)) (t_objectiveId t) = Some []"
    using skip by (simp add: logCall_def)
  then have up: "fold (taskUploadStep e ?rm) (tasks w) ([], ?w0) = ([], ?w0)"
    by (rule taskUploadLoop_skip)
  have res: "syncTasks e w = (Inr [], ?w3)"
    using tl by (simp add: syncTasks_def Let_def up)
  from tsRel_loop[of ?rm "tasks w" ?w0 e]
  obtain ys where st: "calls ?w2 = calls ?w0 @ ys" "\<forall>c\<in>set ys. isUpdate (fst c)"
    unfolding tsRel_def by fastforce
  have dc: "calls ?w3 = calls ?w2" by (rule taskDownload_calls)
  have nc: "\<forall>c\<in>set ((GetTasks (today e), True) # ys). \<not> isCreate (fst c)"
    using st(2) by (auto dest: isUpdate_only)
  have C: "calls ?w3 = calls w @ ((GetTasks (today e), True) # ys)"
    using dc st(1) by (simp add: logCall_def)
  have sm: "idMapping (snd (syncTasks e w)) = idMapping w"
    using syncTasks_summary[of e w] by blast
  show ?thesis
    using sm C nc unfolding res by (metis fst_conv snd_conv)
qed

lemma remoteMap_mem: "r \<in> set rs \<Longrightarrow> remoteMap rs (ao_id r) \<noteq> None"
  unfolding remoteMap_None by blast

lemma localMap_mem: "k \<in> o_id ` set ls \<Longrightarrow> localMap ls k \<noteq> None"
  unfolding localMap_None by blast

lemma taskMap_mem: "k \<in> t_id ` set ts \<Longrightarrow> taskMap ts k \<noteq> None"
  unfolding taskMap_None by blast

section \<open>The claims\<close>

subsection \<open>C1: idempotence\<close>




text \<open>
  The hypothesis on identifiers cannot be dropped. The first run uploads the objective
  \<open>obj-1\<close> under a generated identifier and its task \<open>t1\<close> likewise; the server lists both
  at the second run, which downloads a copy of the objective under the generated
  identifier, registers that identifier and creates the task once more.
\<close>

lemma generated_id_example:
  "success (fst (syncAll listing legacy))
   \<and> map isCreate (map fst (newCalls (data (snd (syncAll listing legacy)))
         (data (snd (syncAll listing (snd (syncAll listing legacy)))))))
       = [False, False, False, True]
   \<and> idMapping (data (snd (syncAll listing legacy)))
         ''00000000-0000-4000-8000-000000000000'' = None
   \<and> idMapping (data (snd (syncAll listing (snd (syncAll listing legacy)))))
         ''00000000-0000-4000-8000-000000000000''
       = Some ''00000000-0000-4000-8000-000000000000''"
  by code_simp

subsection \<open>C2: name-based convergence\<close>

text \<open>
  Claim C2, as amended. Let a local objective have an identifier that is no remote
  identifier, that no other local objective and no local pillar, metric or ritual uses, and
  let the by-lowercase-name index map its name to the remote objective \<open>b\<close>. After one
  authenticated pass against a server that answers a detail request with the objective
  asked for, the identity mapping resolves the local identifier to the identifier of \<open>b\<close>, and
  no \<open>createObjective\<close> call of the pass carries that name, whatever its case.
\<close>

theorem name_match_converges:
  assumes auth: "isAuthenticated s"
    and get: "getObjectives e (calls (data s)) = Inr remoteObjectives"
    and loc: "local \<in> set (objectives (data s))"
    and idNone: "remoteMap remoteObjectives (o_id local) = None"
    and byName: "remoteByName remoteObjectives (toLowerCase (o_name local)) = Some b"
    and only: "\<forall>l\<in>set (objectives (data s)).
        o_id local \<notin> set (childIds l) \<and> (o_id l = o_id local \<longrightarrow> l = local)"
    and echo: "\<forall>cs i r. getObjective e cs i = Inr r \<longrightarrow> ao_id r = i"
  shows "idMapping (data (snd (syncAll e s))) (o_id local) = Some (ao_id b)
       \<and> (\<forall>p ok. (CreateObjective p, ok) \<in> set (newCalls (data s) (data (snd (syncAll e s))))
             \<longrightarrow> toLowerCase (co_name p) \<noteq> toLowerCase (o_name local))"
proof -
  let ?w = "data s"
  let ?up = "fold (uploadStep e remoteObjectives) (objectives ?w)
               ([], logCall GetObjectives True ?w)"
  have lm: "localMap (objectives ?w) (o_id local) \<noteq> None"
    using loc by (simp add: localMap_None)
  have ech: "echoes e" using echo by (simp add: echoes_def)
  have "idMapping (snd (syncObjectives e ?w)) (o_id local) = idMapping (snd ?up) (o_id local)"
    unfolding syncObjectives_store[OF get]
    using downloadLoop_key[where lm = "localMap (objectives ?w)" and a = "o_id local", OF ech lm]
    by simp
  also have "\<dots> = Some (ao_id b)"
    by (rule uploadLoop_matched[OF loc idNone byName only])
  finally have m: "idMapping (snd (syncObjectives e ?w)) (o_id local) = Some (ao_id b)" .
  from syncAll_outcome[OF auth, of e]
  obtain xs ys zs where xs: "calls (data (snd (syncAll e s))) = calls ?w @ xs"
    and im: "idMapping (data (snd (syncAll e s))) = idMapping (snd (syncObjectives e ?w))"
    and sp: "xs = ys @ zs" "calls (snd (syncObjectives e ?w)) = calls ?w @ ys"
      "\<forall>c\<in>set zs. \<forall>p. fst c \<noteq> CreateObjective p"
    by blast
  from syncObjectives_summary[of e ?w]
  obtain ys' where ys': "calls (snd (syncObjectives e ?w)) = calls ?w @ ys'"
    "\<forall>rs. getObjectives e (calls ?w) = Inr rs \<longrightarrow>
        (\<forall>c\<in>set ys'. \<forall>p. fst c = CreateObjective p \<longrightarrow>
           remoteByName rs (toLowerCase (co_name p)) = None)"
    by blast
  have "ys' = ys" using sp(2) ys'(1) by simp
  then have cr: "\<forall>c\<in>set ys. \<forall>p. fst c = CreateObjective p \<longrightarrow>
      remoteByName remoteObjectives (toLowerCase (co_name p)) = None"
    using ys'(2) get by blast
  have new: "newCalls ?w (data (snd (syncAll e s))) = ys @ zs"
    using xs sp(1) newCalls_append by simp
  have "\<forall>p ok. (CreateObjective p, ok) \<in> set (ys @ zs)
      \<longrightarrow> toLowerCase (co_name p) \<noteq> toLowerCase (o_name local)"
    using cr sp(3) byName by fastforce
  then show ?thesis using m im new by simp
qed

text \<open>
  Claim C2 as stated fails: the remote objective \<open>b1\<close> has the name of the local objective
  \<open>a\<close>, yet \<open>a\<close> resolves to \<open>b2\<close>, and local copies of \<open>b1\<close> and \<open>b2\<close> are inserted.
\<close>

theorem name_match_counterexample:
  "toLowerCase (ao_name (mkRemote ''b1'' ''fitness'')) = toLowerCase ''Fitness''
   \<and> idMapping (data (snd (syncAll (server dupRemotes []) fitnessLocal))) ''a'' = Some ''b2''
   \<and> map o_id (objectives (data (snd (syncAll (server dupRemotes []) fitnessLocal))))
       = [''a'', ''b1'', ''b2'']"
  by code_simp

theorem name_match_converges_witness:
  "isAuthenticated fitnessLocal
   \<and> remoteByName [mkRemote ''b'' ''fitness''] (toLowerCase ''Fitness'')
       = Some (mkRemote ''b'' ''fitness'')
   \<and> idMapping (data (snd (syncAll (server [mkRemote ''b'' ''fitness''] []) fitnessLocal))) ''a''
       = Some ''b''"
proof -
  let ?e = "server [mkRemote ''b'' ''fitness''] []"
  let ?l = "mkObjective ''a'' ''Fitness''"
  have a: "isAuthenticated fitnessLocal" by code_simp
  have g: "getObjectives ?e (calls (data fitnessLocal)) = Inr [mkRemote ''b'' ''fitness'']"
    by (simp add: server_def)
  have l: "?l \<in> set (objectives (data fitnessLocal))" by code_simp
  have i: "remoteMap [mkRemote ''b'' ''fitness''] (o_id ?l) = None" by code_simp
  have n: "remoteByName [mkRemote ''b'' ''fitness''] (toLowerCase (o_name ?l))
      = Some (mkRemote ''b'' ''fitness'')"
    by code_simp
  have n': "remoteByName [mkRemote ''b'' ''fitness''] (toLowerCase ''Fitness'')
      = Some (mkRemote ''b'' ''fitness'')"
    by code_simp
  have o: "\<forall>l\<in>set (objectives (data fitnessLocal)).
        o_id ?l \<notin> set (childIds l) \<and> (o_id l = o_id ?l \<longrightarrow> l = ?l)"
    by code_simp
  have e: "\<forall>cs i r. getObjective ?e cs i = Inr r \<longrightarrow> ao_id r = i"
    by (auto simp: server_def find_Some_iff split: option.splits)
  have ia: "o_id ?l = ''a''" "ao_id (mkRemote ''b'' ''fitness'') = ''b''"
    by (simp_all add: mkObjective_def mkRemote_def)
  show ?thesis using name_match_converges[OF a g l i n o e] a n' ia by simp
qed

subsection \<open>C3: lifetime of the identity mapping\<close>

text \<open>
  Claim C3, as amended. The identity mapping is module-level state that no invocation
  resets: \<open>syncAll\<close> starts from the mapping it is given and never removes a key, so an
  entry registered before an invocation is still bound after it.
\<close>

theorem syncAll_keeps_entries:
  assumes "idMapping (data s) k = Some v"
  shows "idMapping (data (snd (syncAll e s))) k \<noteq> None"
proof (cases "isAuthenticated s")
  case False
  then show ?thesis using assms by (simp add: syncAll_def)
next
  case True
  from syncAll_outcome[OF True, of e]
  have "idMapping (data (snd (syncAll e s))) = idMapping (snd (syncObjectives e (data s)))"
    by blast
  moreover have "dom (idMapping (data s)) \<subseteq> dom (idMapping (snd (syncObjectives e (data s))))"
    using syncObjectives_summary[of e "data s"] by blast
  ultimately show ?thesis using assms by auto
qed

text \<open>
  Claim C3 as stated fails: the second invocation begins with the entry that the first
  one registered, and keeps it although it fetches no remote objective and both of its
  creation calls throw.
\<close>

theorem mapping_persists_counterexample:
  "idMapping (data (snd (syncAll vanishing fitnessLocal))) ''a'' = Some ''b''
   \<and> map fst (newCalls (data (snd (syncAll vanishing fitnessLocal)))
        (data (snd (syncAll vanishing (snd (syncAll vanishing fitnessLocal))))))
       = [GetObjectives,
          CreateObjective (createPayload (mkObjective ''a'' ''Fitness'')
            (fst (mintAll vanishing (mkObjective ''a'' ''Fitness'') 0))),
          CreateObjective (createPayload (materialize (mkRemote ''b'' ''fitness''))
            (fst (mintAll vanishing (materialize (mkRemote ''b'' ''fitness'')) 1))),
          GetTasks ''2026-01-01'']
   \<and> \<not> success (fst (syncAll vanishing (snd (syncAll vanishing fitnessLocal))))
   \<and> idMapping (data (snd (syncAll vanishing (snd (syncAll vanishing fitnessLocal))))) ''a''
       = Some ''b''"
  by code_simp

theorem syncAll_keeps_entries_witness:
  "idMapping (data (snd (syncAll vanishing fitnessLocal))) ''a'' = Some ''b''
   \<and> idMapping (data (snd (syncAll vanishing (snd (syncAll vanishing fitnessLocal))))) ''a''
       \<noteq> None"
proof -
  have a: "idMapping (data (snd (syncAll vanishing fitnessLocal))) ''a'' = Some ''b''"
    by code_simp
  show ?thesis using syncAll_keeps_entries[OF a, of vanishing] a by simp
qed

subsection \<open>C4: the index by lowercase name\<close>

text \<open>
  Claim C4, as amended. The by-lowercase-name index maps a name to the last remote
  objective of that name in the fetched list: a later entry replaces an earlier one.
\<close>

theorem remoteByName_last_wins:
  "remoteByName remoteObjectives k =
     find (\<lambda>ob. toLowerCase (ao_name ob) = k) (rev remoteObjectives)"
  unfolding remoteByName_def
  by (simp add: fold_index_find[where key = "\<lambda>ob. toLowerCase (ao_name ob)"]
      split: option.splits)

text \<open>
  Claim C4 as stated fails: of two remote objectives named alike, the first in the list
  is \<open>b1\<close>, the index holds \<open>b2\<close>, and a pass registers the local objective to \<open>b2\<close>.
\<close>

theorem remoteByName_first_counterexample:
  "map ao_id dupRemotes = [''b1'', ''b2'']
   \<and> map toLowerCase (map ao_name dupRemotes) = [toLowerCase ''Fitness'', toLowerCase ''Fitness'']
   \<and> map_option ao_id (remoteByName dupRemotes (toLowerCase ''Fitness'')) = Some ''b2''
   \<and> idMapping (data (snd (syncAll (server dupRemotes []) fitnessLocal))) ''a'' = Some ''b2''"
  by code_simp

subsection \<open>C5: registration after an upload\<close>

text \<open>
  Claim C5, as amended. For a local-only objective (no remote objective of its identifier
  or of its name): when \<open>createObjective\<close> returns the created objective, no error is
  recorded and the mapping binds the identifier of the objective and of every one of its
  pillars, metrics and rituals; when the call throws, the per-objective error is appended
  and the mapping is exactly what it was before the attempt.
\<close>

theorem upload_registers_all_or_nothing:
  assumes "remoteMap remoteObjectives (o_id local) = None"
    and "remoteByName remoteObjectives (toLowerCase (o_name local)) = None"
  shows "(\<forall>created.
            createObjective e (calls w)
              (createPayload local (fst (mintAll e local (idCount w)))) = Inr (Some created)
            \<longrightarrow> fst (uploadStep e remoteObjectives local (errors, w)) = errors
              \<and> set (o_id local # childIds local)
                  \<subseteq> dom (idMapping (snd (uploadStep e remoteObjectives local (errors, w)))))
       \<and> (\<forall>msg.
            createObjective e (calls w)
              (createPayload local (fst (mintAll e local (idCount w)))) = Inl msg
            \<longrightarrow> fst (uploadStep e remoteObjectives local (errors, w))
                  = errors @ [uploadFailed ''objective'' (o_name local)]
              \<and> idMapping (snd (uploadStep e remoteObjectives local (errors, w))) = idMapping w)"
proof -
  let ?mn = "fst (mintAll e local (idCount w))"
  have keys: "map fst (pillarMappings ?mn @ metricMappings ?mn @ ritualMappings ?mn)
      = childIds local"
    by (simp add: mintAll_def childIds_def Let_def case_prod_beta mintIds_keys)
  have dom: "dom (registerAll local ?mn (idMapping w)) = dom (idMapping w) \<union> set (o_id local # childIds local)"
  proof -
    have "fst ` set (pillarMappings ?mn @ metricMappings ?mn @ ritualMappings ?mn)
        = set (childIds local)"
      using keys by (metis image_set)
    then show ?thesis
      unfolding registerAll_def register_dom by auto
  qed
  show ?thesis
    using assms dom
    by (auto simp: uploadStep_new attempt_def logCall_def)
qed

text \<open>
  Claim C5 as stated fails: after an earlier pass registered the objective by name, a
  failing upload of it records the error and the mapping still holds its entry.
\<close>

theorem failed_upload_counterexample:
  "fst (uploadStep vanishing [] (mkObjective ''a'' ''Fitness'')
          ([], data (snd (syncAll vanishing fitnessLocal))))
     = [uploadFailed ''objective'' ''Fitness'']
   \<and> idMapping (snd (uploadStep vanishing [] (mkObjective ''a'' ''Fitness'')
          ([], data (snd (syncAll vanishing fitnessLocal))))) ''a'' = Some ''b''"
  by code_simp

theorem upload_registers_all_or_nothing_witness:
  "createObjective (server [] []) []
      (createPayload withChildren (fst (mintAll (server [] []) withChildren 0)))
     = Inr (Some (mkRemote ''00000000-0000-4000-8000-000000000000'' ''Reading''))
   \<and> set [''obj-2'', ''p1'', ''m1'', ''r1'']
       \<subseteq> dom (idMapping (snd (uploadStep (server [] []) [] withChildren ([], mkStore [] []))))
   \<and> createObjective createFailing []
      (createPayload withChildren (fst (mintAll createFailing withChildren 0)))
     = Inl ''Unable to connect to server''
   \<and> fst (uploadStep createFailing [] withChildren ([], mkStore [] []))
       = [uploadFailed ''objective'' ''Reading'']
   \<and> idMapping (snd (uploadStep createFailing [] withChildren ([], mkStore [] []))) = Map.empty"
proof -
  have i: "remoteMap [] (o_id withChildren) = None" by code_simp
  have n: "remoteByName [] (toLowerCase (o_name withChildren)) = None" by code_simp
  have w: "calls (mkStore [] []) = []" "idCount (mkStore [] []) = 0"
    "idMapping (mkStore [] []) = Map.empty"
    by (simp_all add: mkStore_def)
  have ok: "createObjective (server [] []) []
      (createPayload withChildren (fst (mintAll (server [] []) withChildren 0)))
     = Inr (Some (mkRemote ''00000000-0000-4000-8000-000000000000'' ''Reading''))"
    by code_simp
  have ko: "createObjective createFailing []
      (createPayload withChildren (fst (mintAll createFailing withChildren 0)))
     = Inl ''Unable to connect to server''"
    by code_simp
  have k: "o_id withChildren # childIds withChildren = [''obj-2'', ''p1'', ''m1'', ''r1'']"
    "o_name withChildren = ''Reading''"
    by code_simp+
  from upload_registers_all_or_nothing[OF i n, of "server [] []" "mkStore [] []" "[]"] ok w k
  have a: "set [''obj-2'', ''p1'', ''m1'', ''r1'']
       \<subseteq> dom (idMapping (snd (uploadStep (server [] []) [] withChildren ([], mkStore [] []))))"
    by simp
  from upload_registers_all_or_nothing[OF i n, of createFailing "mkStore [] []" "[]"] ko w k
  have b: "fst (uploadStep createFailing [] withChildren ([], mkStore [] []))
       = [uploadFailed ''objective'' ''Reading'']
     \<and> idMapping (snd (uploadStep createFailing [] withChildren ([], mkStore [] []))) = Map.empty"
    by simp
  show ?thesis using ok ko a b by blast
qed

subsection \<open>C6: asymmetric failure handling\<close>

text \<open>
  Claim C6. In an authenticated pass the result is successful exactly when every call that
  threw is an \<open>updateTask\<close> call, and the final status is \<open>Success\<close> or \<open>Error\<close>
  accordingly: a failing status push alone leaves the pass successful, a failing
  \<open>createObjective\<close> makes it unsuccessful with status \<open>Error\<close>. When no fetch threw,
  the published error text counts the creation calls that threw and nothing else.
\<close>

theorem status_push_failures_not_counted:
  assumes "isAuthenticated s"
  shows "success (fst (syncAll e s))
           = list_all (\<lambda>c. snd c \<or> isUpdate (fst c)) (newCalls (data s) (data (snd (syncAll e s))))
     \<and> status (syncState (snd (syncAll e s)))
           = (if success (fst (syncAll e s)) then Success else Error)
     \<and> ((\<exists>p. (CreateObjective p, False) \<in> set (newCalls (data s) (data (snd (syncAll e s)))))
           \<longrightarrow> \<not> success (fst (syncAll e s)) \<and> status (syncState (snd (syncAll e s))) = Error)
     \<and> (list_all (\<lambda>c. isFetch (fst c) \<longrightarrow> snd c) (newCalls (data s) (data (snd (syncAll e s))))
           \<longrightarrow> error (syncState (snd (syncAll e s)))
                 = failedItems (length (filter (\<lambda>c. \<not> snd c \<and> isCreate (fst c))
                     (newCalls (data s) (data (snd (syncAll e s)))))))"
proof -
  let ?new = "newCalls (data s) (data (snd (syncAll e s)))"
  let ?n = "length (filter (\<lambda>c. \<not> snd c \<and> isCreate (fst c)) ?new)"
  from syncAll_outcome[OF assms, of e]
  obtain xs where xs: "calls (data (snd (syncAll e s))) = calls (data s) @ xs"
    and out: "if \<forall>c\<in>set xs. isFetch (fst c) \<longrightarrow> snd c
        then success (fst (syncAll e s))
               = (length (filter (\<lambda>c. \<not> snd c \<and> isCreate (fst c)) xs) = 0)
           \<and> syncState (snd (syncAll e s))
               = completed e (length (filter (\<lambda>c. \<not> snd c \<and> isCreate (fst c)) xs))
        else \<not> success (fst (syncAll e s))
           \<and> status (syncState (snd (syncAll e s))) = Error
           \<and> lastSyncAt (syncState (snd (syncAll e s))) = lastSyncAt (syncState s)"
    by blast
  have new: "?new = xs" using xs by (rule newCalls_append)
  have a: "success (fst (syncAll e s)) = list_all (\<lambda>c. snd c \<or> isUpdate (fst c)) xs"
    and b: "status (syncState (snd (syncAll e s)))
              = (if success (fst (syncAll e s)) then Success else Error)"
  proof -
    show "success (fst (syncAll e s)) = list_all (\<lambda>c. snd c \<or> isUpdate (fst c)) xs"
    proof (cases "\<forall>c\<in>set xs. isFetch (fst c) \<longrightarrow> snd c")
      case True
      then have "success (fst (syncAll e s))
          = (filter (\<lambda>c. \<not> snd c \<and> isCreate (fst c)) xs = [])"
        using out by simp
      also have "\<dots> = list_all (\<lambda>c. snd c \<or> isUpdate (fst c)) xs"
        using True call_kinds isCreate_not_fetch
        by (fastforce simp: filter_empty_conv list_all_iff)
      finally show ?thesis .
    next
      case False
      then obtain c where "c \<in> set xs" "isFetch (fst c)" "\<not> snd c" by blast
      moreover from this have "\<not> isUpdate (fst c)" by (cases "fst c") auto
      ultimately have "\<not> list_all (\<lambda>c. snd c \<or> isUpdate (fst c)) xs"
        by (auto simp: list_all_iff)
      then show ?thesis using False out by simp
    qed
    show "status (syncState (snd (syncAll e s)))
              = (if success (fst (syncAll e s)) then Success else Error)"
      using out by (auto simp: completed_def split: if_splits)
  qed
  have c: "(\<exists>p. (CreateObjective p, False) \<in> set xs)
           \<longrightarrow> \<not> success (fst (syncAll e s)) \<and> status (syncState (snd (syncAll e s))) = Error"
    using a b by (auto simp: list_all_iff)
  have d: "list_all (\<lambda>c. isFetch (fst c) \<longrightarrow> snd c) xs
           \<longrightarrow> error (syncState (snd (syncAll e s)))
                 = failedItems (length (filter (\<lambda>c. \<not> snd c \<and> isCreate (fst c)) xs))"
    using out by (auto simp: list_all_iff completed_def failedItems_def)
  show ?thesis unfolding new using a b c d by blast
qed

theorem status_push_failures_not_counted_witness:
  "isAuthenticated overdueLocal
   \<and> (UpdateTask ''t1'' \<lparr> tu_status = Pending, tu_completedAt = None, tu_skippedReason = None \<rparr>,
        False) \<in> set (newCalls (data overdueLocal) (data (snd (syncAll updFailing overdueLocal))))
   \<and> success (fst (syncAll updFailing overdueLocal))
   \<and> status (syncState (snd (syncAll updFailing overdueLocal))) = Success
   \<and> isAuthenticated oneLocal
   \<and> (CreateObjective (createPayload (mkObjective ''obj-1'' ''Fitness'')
            (fst (mintAll createFailing (mkObjective ''obj-1'' ''Fitness'') 0))), False)
        \<in> set (newCalls (data oneLocal) (data (snd (syncAll createFailing oneLocal))))
   \<and> \<not> success (fst (syncAll createFailing oneLocal))
   \<and> status (syncState (snd (syncAll createFailing oneLocal))) = Error
   \<and> error (syncState (snd (syncAll createFailing oneLocal)))
       = Some ''1 item(s) failed to sync''"
proof -
  have a1: "isAuthenticated overdueLocal" by code_simp
  have u: "(UpdateTask ''t1'' \<lparr> tu_status = Pending, tu_completedAt = None,
              tu_skippedReason = None \<rparr>, False)
        \<in> set (newCalls (data overdueLocal) (data (snd (syncAll updFailing overdueLocal))))"
    by code_simp
  have l: "list_all (\<lambda>c. snd c \<or> isUpdate (fst c))
        (newCalls (data overdueLocal) (data (snd (syncAll updFailing overdueLocal))))"
    by code_simp
  have s1: "success (fst (syncAll updFailing overdueLocal))
      \<and> status (syncState (snd (syncAll updFailing overdueLocal))) = Success"
    using status_push_failures_not_counted[OF a1, of updFailing] l by simp
  have a2: "isAuthenticated oneLocal" by code_simp
  have c0: "(CreateObjective (createPayload (mkObjective ''obj-1'' ''Fitness'')
            (fst (mintAll createFailing (mkObjective ''obj-1'' ''Fitness'') 0))), False)
        \<in> set (newCalls (data oneLocal) (data (snd (syncAll createFailing oneLocal))))"
    by code_simp
  then have c: "\<exists>p. (CreateObjective p, False)
          \<in> set (newCalls (data oneLocal) (data (snd (syncAll createFailing oneLocal))))"
    by blast
  have s2: "\<not> success (fst (syncAll createFailing oneLocal))
      \<and> status (syncState (snd (syncAll createFailing oneLocal))) = Error"
    using status_push_failures_not_counted[OF a2, of createFailing] c by blast
  have f: "list_all (\<lambda>c. isFetch (fst c) \<longrightarrow> snd c)
        (newCalls (data oneLocal) (data (snd (syncAll createFailing oneLocal))))"
    by code_simp
  have n: "failedItems (length (filter (\<lambda>c. \<not> snd c \<and> isCreate (fst c))
        (newCalls (data oneLocal) (data (snd (syncAll createFailing oneLocal))))))
      = Some ''1 item(s) failed to sync''"
    by code_simp
  have s3: "error (syncState (snd (syncAll createFailing oneLocal)))
      = Some ''1 item(s) failed to sync''"
    using status_push_failures_not_counted[OF a2, of createFailing] f n by simp
  show ?thesis using a1 u s1 a2 c0 s2 s3 by blast
qed

subsection \<open>C7: deferred task upload\<close>

text \<open>
  Claim C7. A local task that is absent from the fetched remote list and whose objective
  identifier has no entry in the identity mapping is deferred: the task phase returns the
  same errors and issues the same calls as it does without that task in the local list,
  so no \<open>createTask\<close> is issued and no error is recorded for it.
\<close>

theorem deferred_task_is_skipped:
  assumes get: "getTasks e (calls w) (today e) = Inr remoteTasks"
    and ts: "tasks w = before @ t # after"
    and absent: "taskMap remoteTasks (t_id t) = None"
    and unmapped: "idMapping w (t_objectiveId t) = None"
  shows "fst (syncTasks e w) = fst (syncTasks e (w\<lparr>tasks := before @ after\<rparr>))
       \<and> calls (snd (syncTasks e w)) = calls (snd (syncTasks e (w\<lparr>tasks := before @ after\<rparr>)))"
proof -
  let ?T = "before @ after"
  let ?rm = "taskMap remoteTasks"
  let ?w0 = "logCall (GetTasks (today e)) True w"
  let ?up = "fold (taskUploadStep e ?rm) ?T ([], ?w0)"
  let ?w2 = "fold (statusStep e ?rm) ?T (snd ?up)"
  have w0': "logCall (GetTasks (today e)) True (w\<lparr>tasks := ?T\<rparr>) = ?w0\<lparr>tasks := ?T\<rparr>"
    by (simp add: logCall_def)
  have up: "fold (taskUploadStep e ?rm) (tasks w) ([], ?w0) = ?up"
    unfolding ts using absent unmapped
    by (intro taskUploadLoop_deferred) (simp_all add: logCall_def)
  have st: "fold (statusStep e ?rm) (tasks w) (snd ?up) = ?w2"
    unfolding ts using absent by (simp add: statusStep_absent)
  have "syncTasks e w
      = (Inr (fst (fold (taskUploadStep e ?rm) (tasks w) ([], ?w0))),
         fold (taskDownloadStep (taskMap (tasks w))) remoteTasks
           (fold (statusStep e ?rm) (tasks w)
              (snd (fold (taskUploadStep e ?rm) (tasks w) ([], ?w0)))))"
    using get by (simp add: syncTasks_def Let_def del: fold_append)
  then have left: "syncTasks e w
      = (Inr (fst ?up), fold (taskDownloadStep (taskMap (tasks w))) remoteTasks ?w2)"
    by (simp only: up st)
  have right: "syncTasks e (w\<lparr>tasks := ?T\<rparr>)
      = (Inr (fst ?up), fold (taskDownloadStep (taskMap ?T)) remoteTasks (?w2\<lparr>tasks := ?T\<rparr>))"
    using get
    by (simp add: syncTasks_def Let_def w0' taskUploadLoop_tasks statusLoop_tasks
        del: fold_append)
  show ?thesis
    by (simp add: left right taskDownload_calls)
qed

theorem deferred_task_is_skipped_witness:
  "getTasks (server [] []) (calls twoTasks) (today (server [] [])) = Inr []
   \<and> tasks twoTasks = [] @ mkTask ''t1'' ''o-unmapped'' Pending # [mkTask ''t2'' ''o1'' Pending]
   \<and> idMapping twoTasks (t_objectiveId (mkTask ''t1'' ''o-unmapped'' Pending)) = None
   \<and> fst (syncTasks (server [] []) twoTasks) = Inr []
   \<and> map isCreate (map fst (calls (snd (syncTasks (server [] []) twoTasks))))
       = [False, True]
   \<and> calls (snd (syncTasks (server [] []) twoTasks))
       = calls (snd (syncTasks (server [] [])
           (twoTasks\<lparr>tasks := [] @ [mkTask ''t2'' ''o1'' Pending]\<rparr>)))"
proof -
  have g: "getTasks (server [] []) (calls twoTasks) (today (server [] [])) = Inr []"
    by (simp add: server_def)
  have t: "tasks twoTasks
      = [] @ mkTask ''t1'' ''o-unmapped'' Pending # [mkTask ''t2'' ''o1'' Pending]"
    by (simp add: twoTasks_def mkStore_def)
  have a: "taskMap [] (t_id (mkTask ''t1'' ''o-unmapped'' Pending)) = None" by code_simp
  have u: "idMapping twoTasks (t_objectiveId (mkTask ''t1'' ''o-unmapped'' Pending)) = None"
    by code_simp
  have e: "fst (syncTasks (server [] []) twoTasks) = Inr []" by code_simp
  have c: "map isCreate (map fst (calls (snd (syncTasks (server [] []) twoTasks))))
       = [False, True]"
    by code_simp
  show ?thesis using deferred_task_is_skipped[OF g t a u] g t u e c by blast
qed

subsection \<open>C8: failures in the objective phase\<close>

text \<open>
  Claim C8 at a failing detail fetch. The upload before it succeeded; the exception of
  \<open>getObjective\<close> for the first remote objective ends the pass: the result carries the
  message of the exception, the second remote objective is not fetched, the task phase
  is not run and nothing is downloaded.
\<close>

theorem detail_failure_aborts_pass:
  "fst (syncAll detailFailing oneLocal)
     = \<lparr> success = False, result_error = Some ''Unable to connect to server'' \<rparr>
   \<and> status (syncState (snd (syncAll detailFailing oneLocal))) = Error
   \<and> map fst (calls (data (snd (syncAll detailFailing oneLocal))))
       = [GetObjectives,
          CreateObjective (createPayload (mkObjective ''obj-1'' ''Fitness'')
            (fst (mintAll detailFailing (mkObjective ''obj-1'' ''Fitness'') 0))),
          GetObjective ''r1'']
   \<and> map snd (calls (data (snd (syncAll detailFailing oneLocal)))) = [True, True, False]
   \<and> map o_id (objectives (data (snd (syncAll detailFailing oneLocal)))) = [''obj-1'']"
  by code_simp

subsection \<open>C9: the status \<open>overdue\<close>\<close>

text \<open>
  Claim C9. Every \<open>updateTask\<close> call of the task phase is for a local task that is also in
  the fetched remote list; it carries the translated status, which is never \<open>Overdue\<close>
  (\<open>Overdue\<close> becomes \<open>Pending\<close>) and differs from the remote status, together with the
  completion instant and the skip reason of the local task.
\<close>

theorem overdue_never_transmitted:
  assumes "(UpdateTask i u, ok) \<in> set (newCalls w (snd (syncTasks e w)))"
  shows "tu_status u \<noteq> Overdue
     \<and> (\<exists>remoteTasks. getTasks e (calls w) (today e) = Inr remoteTasks
          \<and> (\<exists>local\<in>set (tasks w). \<exists>remote.
                taskMap remoteTasks (t_id local) = Some remote
              \<and> i = t_id local
              \<and> tu_status u = (if t_status local = Overdue then Pending else t_status local)
              \<and> tu_status u \<noteq> t_status remote
              \<and> tu_completedAt u = t_completedAt local
              \<and> tu_skippedReason u = t_skippedReason local))"
proof -
  from syncTasks_summary[of e w]
  obtain xs where xs: "calls (snd (syncTasks e w)) = calls w @ xs"
    and upd: "\<forall>c\<in>set xs. \<forall>i u. fst c = UpdateTask i u \<longrightarrow>
            (\<exists>remoteTasks. getTasks e (calls w) (today e) = Inr remoteTasks
               \<and> (\<exists>local\<in>set (tasks w). \<exists>remote.
                     taskMap remoteTasks (t_id local) = Some remote
                   \<and> apiStatus local \<noteq> t_status remote
                   \<and> i = t_id local \<and> u = statusUpdate local))"
    by blast
  have "(UpdateTask i u, ok) \<in> set xs"
    using assms newCalls_append[OF xs] by simp
  with upd obtain remoteTasks local remote where
    r: "getTasks e (calls w) (today e) = Inr remoteTasks" "local \<in> set (tasks w)"
      "taskMap remoteTasks (t_id local) = Some remote" "apiStatus local \<noteq> t_status remote"
      "i = t_id local" "u = statusUpdate local"
    by fastforce
  have "tu_status u \<noteq> Overdue" using r(6) by (simp add: statusUpdate_def apiStatus_def)
  moreover have "tu_status u = (if t_status local = Overdue then Pending else t_status local)"
    "tu_status u \<noteq> t_status remote" "tu_completedAt u = t_completedAt local"
    "tu_skippedReason u = t_skippedReason local"
    using r(4,6) by (simp_all add: statusUpdate_def apiStatus_def)
  ultimately show ?thesis using r(1,2,3,5) by blast
qed

theorem overdue_never_transmitted_witness:
  "(UpdateTask ''t1'' \<lparr> tu_status = Pending, tu_completedAt = None, tu_skippedReason = None \<rparr>,
      True) \<in> set (newCalls (data overdueLocal)
          (snd (syncTasks (server [] [mkTask ''t1'' ''o1'' InProgress]) (data overdueLocal))))
   \<and> tu_status \<lparr> tu_status = Pending, tu_completedAt = None, tu_skippedReason = None \<rparr>
        \<noteq> Overdue
   \<and> t_status (hd (tasks (data overdueLocal))) = Overdue"
proof -
  have m: "(UpdateTask ''t1'' \<lparr> tu_status = Pending, tu_completedAt = None,
        tu_skippedReason = None \<rparr>, True) \<in> set (newCalls (data overdueLocal)
          (snd (syncTasks (server [] [mkTask ''t1'' ''o1'' InProgress]) (data overdueLocal))))"
    by code_simp
  have o: "t_status (hd (tasks (data overdueLocal))) = Overdue" by code_simp
  show ?thesis using overdue_never_transmitted[OF m] m o by blast
qed

subsection \<open>C10: the last-sync timestamp\<close>

text \<open>
  Claim C10, as amended. In an authenticated pass \<open>lastSyncAt\<close> becomes the completion
  instant whenever both phases return, also when the final status is \<open>Error\<close> because
  items failed; it keeps its value only when a fetch (\<open>getObjectives\<close>, \<open>getObjective\<close>,
  \<open>getTasks\<close>) threw and so ended the pass with an exception.
\<close>

theorem lastSyncAt_on_completion:
  assumes "isAuthenticated s"
  shows "lastSyncAt (syncState (snd (syncAll e s)))
     = (if list_all (\<lambda>c. isFetch (fst c) \<longrightarrow> snd c)
             (newCalls (data s) (data (snd (syncAll e s))))
        then Some (now e) else lastSyncAt (syncState s))"
proof -
  from syncAll_outcome[OF assms, of e]
  obtain xs where xs: "calls (data (snd (syncAll e s))) = calls (data s) @ xs"
    and out: "if \<forall>c\<in>set xs. isFetch (fst c) \<longrightarrow> snd c
        then success (fst (syncAll e s))
               = (length (filter (\<lambda>c. \<not> snd c \<and> isCreate (fst c)) xs) = 0)
           \<and> syncState (snd (syncAll e s))
               = completed e (length (filter (\<lambda>c. \<not> snd c \<and> isCreate (fst c)) xs))
        else \<not> success (fst (syncAll e s))
           \<and> status (syncState (snd (syncAll e s))) = Error
           \<and> lastSyncAt (syncState (snd (syncAll e s))) = lastSyncAt (syncState s)"
    by blast
  have new: "newCalls (data s) (data (snd (syncAll e s))) = xs" using xs by (rule newCalls_append)
  show ?thesis
    unfolding new using out by (auto simp: list_all_iff completed_def split: if_splits)
qed

text \<open>
  Claim C10 as stated fails: a pass that ends in \<open>Error\<close> because an upload failed does
  set \<open>lastSyncAt\<close>.
\<close>

theorem lastSyncAt_error_counterexample:
  "status (syncState (snd (syncAll createFailing oneLocal))) = Error
   \<and> lastSyncAt (syncState oneLocal) = None
   \<and> lastSyncAt (syncState (snd (syncAll createFailing oneLocal))) = Some 1000"
  by code_simp

theorem lastSyncAt_on_completion_witness:
  "isAuthenticated oneLocal
   \<and> status (syncState (snd (syncAll createFailing oneLocal))) = Error
   \<and> lastSyncAt (syncState (snd (syncAll createFailing oneLocal))) = Some 1000"
proof -
  have a: "isAuthenticated oneLocal" by code_simp
  have l: "list_all (\<lambda>c. isFetch (fst c) \<longrightarrow> snd c)
        (newCalls (data oneLocal) (data (snd (syncAll createFailing oneLocal))))"
    by code_simp
  have n: "now createFailing = 1000" by code_simp
  have e: "status (syncState (snd (syncAll createFailing oneLocal))) = Error" by code_simp
  show ?thesis using lastSyncAt_on_completion[OF a, of createFailing] l n a e by simp
qed

end
